(* ===== verification/Prelude.thy ===== *)
theory Prelude
  imports Complex_Main "HOL-Library.Word" "HOL-Library.Sublist"
begin

text \<open>
  Shared vocabulary of the development: the machine types of the Rust program, the
  "last \<open>n\<close> elements" view of a list that the ring buffer keeps, and the generic list
  and sum lemmas the component theories use. The collection \<open>model_evals\<close> gathers the
  equations that evaluate the model on concrete inputs (used by the witnesses).
\<close>

named_theorems model_evals "equations that evaluate the model on closed inputs"

type_synonym usize = "64 word"
  \<comment> \<open>Rust \<open>usize\<close> on the 64-bit targets the program is built for\<close>

type_synonym 'a chunk = "'a list"
  \<comment> \<open>a \<open>Vec<f32>\<close> moved through a channel\<close>

subsection \<open>The newest \<open>n\<close> elements of a list\<close>

definition lastn :: "nat \<Rightarrow> 'a list \<Rightarrow> 'a list" where
  "lastn n xs = drop (length xs - n) xs"

lemma length_lastn [simp]: "length (lastn n xs) = min n (length xs)"
  by (simp add: lastn_def)

lemma lastn_short [simp]: "length xs \<le> n \<Longrightarrow> lastn n xs = xs"
  by (simp add: lastn_def)

lemma lastn_suffix: "suffix (lastn n xs) xs"
  by (simp add: lastn_def suffix_drop)

lemma lastn_snoc:
  assumes "0 < n"
  shows "lastn n (xs @ [x]) =
     (if length (lastn n xs) = n then tl (lastn n xs) @ [x] else lastn n xs @ [x])"
proof (cases "length xs < n")
  case True
  then show ?thesis by (simp add: lastn_def)
next
  case False
  with assms show ?thesis
    by (simp add: lastn_def drop_Suc[symmetric] Suc_diff_le tl_drop)
qed

lemma lastn_lastn_append: "lastn n (lastn n xs @ ys) = lastn n (xs @ ys)"
proof (cases "length xs \<le> n")
  case False
  then have "lastn n xs @ ys = drop (length xs - n) (xs @ ys)"
    by (simp add: lastn_def)
  with False show ?thesis by (simp add: lastn_def add.commute)
qed simp

lemma lastn_append_long: "n \<le> length ys \<Longrightarrow> lastn n (xs @ ys) = lastn n ys"
  by (simp add: lastn_def)

lemma set_tl_sub: "x \<in> set (tl xs) \<Longrightarrow> x \<in> set xs"
  by (cases xs) auto

subsection \<open>\<open>usize\<close> arithmetic without wrap-around\<close>

lemma unat_usize_add:
  fixes sc :: usize
  assumes "unat sc + k < 2 ^ 64"
  shows "unat (sc + of_nat k) = unat sc + k"
proof -
  have k: "unat (of_nat k :: usize) = k" using assms by (simp add: unat_of_nat)
  with assms have "unat sc + unat (of_nat k :: usize) < 2 ^ LENGTH(64)" by simp
  then have "unat (sc + of_nat k) = unat sc + unat (of_nat k :: usize)"
    by (simp only: unat_add_lem)
  with k show ?thesis by simp
qed

lemma usize_of_nat_le:
  fixes sc :: usize
  assumes "W < 2 ^ 64"
  shows "(of_nat W :: usize) \<le> sc \<longleftrightarrow> W \<le> unat sc"
  using assms by (simp add: word_le_nat_alt unat_of_nat)

lemmas usize_compare_eval [model_evals] = word_le_nat_alt word_less_nat_alt

lemmas char_eval [model_evals] = char_of_def bit_0

subsection \<open>Sums as error results\<close>

lemma sum_case_Inr_eq:
  "(case r of Inl e \<Rightarrow> Inl e | Inr v \<Rightarrow> f v) = Inr w \<longleftrightarrow> (\<exists>v. r = Inr v \<and> f v = Inr w)"
  by (cases r) auto

end
