(* ===== verification/Config.thy ===== *)
theory Config
  imports Prelude
begin

text \<open>
  The compile-time constants of \<open>src/src/main.rs\<close> (lines 15--17) and the command-line
  options \<open>Opt\<close> with their clap defaults (lines 19--37). The window length of the
  pipeline is \<open>BUFFER_SIZE * SECONDS\<close> samples at the capture rate, and the resampler is
  built for \<open>WHISPER_BUFFER_SIZE * SECONDS\<close> output frames.
\<close>

definition SECONDS :: nat where
  "SECONDS = 8"

definition BUFFER_SIZE :: nat where
  "BUFFER_SIZE = 44100"

definition WHISPER_BUFFER_SIZE :: nat where
  "WHISPER_BUFFER_SIZE = 16161"

text \<open>The window length \<open>W\<close> used both as ring capacity and as emission threshold.\<close>

definition window_len :: nat where
  "window_len = BUFFER_SIZE * SECONDS"

definition whisper_window_len :: nat where
  "whisper_window_len = WHISPER_BUFFER_SIZE * SECONDS"

record opt =
  device :: string
  list_devices :: bool
  out_file :: "string option"
  code_phrase :: string
  model_path :: string

definition default_opt :: opt where
  "default_opt =
     \<lparr>device = ''default'', list_devices = False, out_file = None,
      code_phrase = ''the octopus has escaped'', model_path = ''ggml-base.en.bin''\<rparr>"

lemma window_len_value [model_evals]: "window_len = 352800"
  by (simp add: window_len_def BUFFER_SIZE_def SECONDS_def)

lemma whisper_window_len_value [model_evals]: "whisper_window_len = 129288"
  by (simp add: whisper_window_len_def WHISPER_BUFFER_SIZE_def SECONDS_def)

end
