(* ===== verification/Mixer.thy ===== *)
theory Mixer
  imports Prelude
begin

text \<open>
  The Channel Mixer: the capture callback \<open>buffer_stereo_data\<close>
  (\<open>src/src/main.rs\<close>, lines 222--228) and the library routine it calls,
  \<open>whisper_rs::convert_stereo_to_mono_audio\<close>, which is not part of the repository and is
  modelled from its documented contract: an odd number of samples is the error
  \<open>HalfSampleMissing\<close>, otherwise each interleaved pair is averaged. Samples are
  \<open>f32\<close> in the source; here they are any field (rounding of \<open>f32\<close> is not modelled).
  The spec's contract averages \<open>C\<close> interleaved channels (\<open>spec_mix\<close>); the code always
  averages pairs, whatever the device's channel count.
\<close>

datatype whisper_error = HalfSampleMissing nat

fun mix_pairs :: "'a::field list \<Rightarrow> 'a list" where
  "mix_pairs (a # b # rest) = (a + b) / 2 # mix_pairs rest"
| "mix_pairs _ = []"

definition convert_stereo_to_mono_audio :: "'a::field list \<Rightarrow> whisper_error + 'a list" where
  "convert_stereo_to_mono_audio samples =
     (if odd (length samples) then Inl (HalfSampleMissing (length samples))
      else Inr (mix_pairs samples))"

text \<open>
  Why the callback panics: the conversion fails (\<open>expect\<close>, line 224) or the receiving
  end of the audio channel is gone (\<open>panic!\<close>, line 226).
\<close>

datatype callback_panic = FailedConvert whisper_error | FailedSend

definition buffer_stereo_data ::
  "'a::field list \<Rightarrow> bool \<Rightarrow> callback_panic + 'a chunk" where
  "buffer_stereo_data input receiver_alive =
     (case convert_stereo_to_mono_audio input of
        Inl e \<Rightarrow> Inl (FailedConvert e)
      | Inr downsample \<Rightarrow> if receiver_alive then Inr downsample else Inl FailedSend)"

text \<open>The spec's mixer (section 4.1): sample \<open>i\<close> is the mean of the \<open>C\<close> values of frame \<open>i\<close>.\<close>

definition spec_mix :: "nat \<Rightarrow> 'a::field list \<Rightarrow> 'a list" where
  "spec_mix C xs =
     map (\<lambda>i. sum_list (take C (drop (i * C) xs)) / of_nat C) [0..<length xs div C]"

subsection \<open>Lemmas\<close>

lemma length_mix_pairs [simp]: "length (mix_pairs xs) = length xs div 2"
  by (induction xs rule: mix_pairs.induct) auto

lemma nth_mix_pairs:
  "i < length xs div 2 \<Longrightarrow> mix_pairs xs ! i = (xs ! (2 * i) + xs ! (2 * i + 1)) / 2"
proof (induction xs arbitrary: i rule: mix_pairs.induct)
  case (1 a b rest)
  then show ?case by (cases i) auto
qed auto

lemma mix_pairs_in_range:
  fixes xs :: "'a::linordered_field list"
  assumes "\<forall>x \<in> set xs. lo \<le> x \<and> x \<le> hi"
  shows "\<forall>y \<in> set (mix_pairs xs). lo \<le> y \<and> y \<le> hi"
  using assms
  by (induction xs rule: mix_pairs.induct) (auto simp: field_simps)

lemma buffer_stereo_data_Inr:
  "buffer_stereo_data input alive = Inr out \<longleftrightarrow> even (length input) \<and> alive \<and> out = mix_pairs input"
  by (auto simp: buffer_stereo_data_def convert_stereo_to_mono_audio_def)

subsection \<open>Properties of the mixer\<close>

text \<open>C7. A frame the callback accepts is mixed sample by sample: the chunk sent has half as many samples as the interleaved frame, and sample \<open>i\<close> is the mean of the frame's values \<open>2i\<close> and \<open>2i+1\<close> (spec section 8, two-channel case).\<close>

theorem buffer_stereo_data_averages:
  assumes "buffer_stereo_data input alive = Inr out"
  shows "length out = length input div 2 \<and>
         (\<forall>i < length out. out ! i = (input ! (2 * i) + input ! (2 * i + 1)) / 2)"
  using assms by (simp add: buffer_stereo_data_Inr nth_mix_pairs)

theorem buffer_stereo_data_averages_witness:
  "buffer_stereo_data [1, 3, 2, 6 :: rat] True = Inr [2, 4] \<and>
   length [2, 4 :: rat] = length [1, 3, 2, 6 :: rat] div 2 \<and>
   [2, 4 :: rat] ! 1 = ([1, 3, 2, 6 :: rat] ! 2 + [1, 3, 2, 6 :: rat] ! 3) / 2"
proof -
  have run: "buffer_stereo_data [1, 3, 2, 6 :: rat] True = Inr [2, 4]"
    by (simp add: buffer_stereo_data_def convert_stereo_to_mono_audio_def)
  from buffer_stereo_data_averages[OF run] have
    "length [2, 4 :: rat] = length [1, 3, 2, 6 :: rat] div 2"
    "[2, 4 :: rat] ! 1 = ([1, 3, 2, 6 :: rat] ! (2 * 1) + [1, 3, 2, 6 :: rat] ! (2 * 1 + 1)) / 2"
    by simp_all
  with run show ?thesis by simp
qed

text \<open>C8. The capture callback panics exactly when the frame has an odd number of samples (\<open>HalfSampleMissing\<close>) or the audio channel's receiver is gone; otherwise it sends the mixed chunk.\<close>

theorem buffer_stereo_data_panics:
  "(\<exists>p. buffer_stereo_data input alive = Inl p) \<longleftrightarrow> odd (length input) \<or> \<not> alive"
  by (auto simp: buffer_stereo_data_def convert_stereo_to_mono_audio_def)

theorem buffer_stereo_data_panics_witness:
  "buffer_stereo_data [1, 2, 3 :: rat] True = Inl (FailedConvert (HalfSampleMissing 3)) \<and>
   buffer_stereo_data [1, 2 :: rat] False = Inl FailedSend \<and>
   ((\<exists>p. buffer_stereo_data [1, 2 :: rat] True = Inl p) \<longleftrightarrow> odd (length [1, 2 :: rat]) \<or> \<not> True)"
proof -
  have "buffer_stereo_data [1, 2, 3 :: rat] True = Inl (FailedConvert (HalfSampleMissing 3))"
    "buffer_stereo_data [1, 2 :: rat] False = Inl FailedSend"
    by (simp_all add: buffer_stereo_data_def convert_stereo_to_mono_audio_def)
  with buffer_stereo_data_panics[of "[1, 2 :: rat]" True] show ?thesis by simp
qed

text \<open>C9. Mixing never leaves the sample range: if every input sample has magnitude at most 1, so has every mixed sample.\<close>

theorem buffer_stereo_data_bounded:
  fixes input :: "'a::linordered_field list"
  assumes "\<forall>x \<in> set input. \<bar>x\<bar> \<le> 1" and "buffer_stereo_data input alive = Inr out"
  shows "\<forall>y \<in> set out. \<bar>y\<bar> \<le> 1"
proof -
  have "\<forall>x \<in> set input. -1 \<le> x \<and> x \<le> 1" using assms(1) by (simp add: abs_le_iff)
  then have "\<forall>y \<in> set (mix_pairs input). -1 \<le> y \<and> y \<le> 1" by (rule mix_pairs_in_range)
  with assms(2) show ?thesis by (simp add: buffer_stereo_data_Inr abs_le_iff)
qed

theorem buffer_stereo_data_bounded_witness:
  "\<bar>1 :: rat\<bar> \<le> 1 \<and> \<bar>-1 :: rat\<bar> \<le> 1 \<and>
   buffer_stereo_data [1, -1 :: rat] True = Inr [0] \<and> \<bar>0 :: rat\<bar> \<le> 1"
proof -
  have run: "buffer_stereo_data [1, -1 :: rat] True = Inr [0]"
    by (simp add: buffer_stereo_data_def convert_stereo_to_mono_audio_def)
  have "\<forall>y \<in> set [0 :: rat]. \<bar>y\<bar> \<le> 1"
    by (rule buffer_stereo_data_bounded[OF _ run]) simp
  with run show ?thesis by simp
qed

lemma spec_mix_1: "spec_mix 1 xs = xs"
proof (rule nth_equalityI)
  show "length (spec_mix 1 xs) = length xs" by (simp add: spec_mix_def)
next
  fix i assume "i < length (spec_mix 1 xs)"
  then have i: "i < length xs" by (simp add: spec_mix_def)
  then have "take 1 (drop i xs) = [xs ! i]" by (simp add: take_Suc_conv_app_nth)
  with i show "spec_mix 1 xs ! i = xs ! i" by (simp add: spec_mix_def)
qed

text \<open>C11. The callback averages pairs whatever the device's channel count: for a
  one-channel device the spec's mixer is the identity, but on every non-empty frame the
  code sends a chunk of half the length, so it never computes the spec's mixer there.\<close>

theorem buffer_stereo_data_ignores_channels:
  assumes "even (length input)" and "input \<noteq> []"
  shows "spec_mix 1 input = input \<and>
         (\<exists>out. buffer_stereo_data input True = Inr out \<and> length out = length input div 2 \<and>
                out \<noteq> spec_mix 1 input)"
proof -
  have "length input div 2 < length input" using assms(2) by simp
  then have "mix_pairs input \<noteq> input" by (metis length_mix_pairs less_irrefl)
  moreover have "spec_mix 1 input = input" by (rule spec_mix_1)
  ultimately show ?thesis using assms(1) by (simp add: buffer_stereo_data_Inr)
qed

theorem buffer_stereo_data_ignores_channels_witness:
  "even (length [1, 3 :: rat]) \<and> [1, 3 :: rat] \<noteq> [] \<and>
   buffer_stereo_data [1, 3 :: rat] True = Inr [2] \<and> spec_mix 1 [1, 3 :: rat] = [1, 3]"
proof -
  have h: "even (length [1, 3 :: rat])" "[1, 3 :: rat] \<noteq> []" by simp_all
  have "buffer_stereo_data [1, 3 :: rat] True = Inr [2]"
    by (simp add: buffer_stereo_data_def convert_stereo_to_mono_audio_def)
  with buffer_stereo_data_ignores_channels[OF h] h show ?thesis by simp
qed

end
