(* ===== verification/RingBuffer.thy ===== *)
theory RingBuffer
  imports Prelude
begin

text \<open>
  The ring buffer of the data thread, \<open>ringbuffer::AllocRingBuffer<f32>\<close>. The crate is
  not part of the repository; it is modelled from its documented contract at two levels:
  \<^item> \<open>ring\<close>: the buffer as the list of its elements, oldest first, with its capacity;
    \<open>ring_push\<close> evicts the oldest element when the buffer is full, \<open>ring_to_vec\<close>
    returns the elements oldest to newest;
  \<^item> \<open>alloc_ring\<close>: the crate's representation, a slot array of the capacity with a read
    and a write pointer that only grow and index the array modulo the capacity; unset
    slots are \<open>None\<close> (\<open>MaybeUninit\<close> in the crate). Pointers are unbounded \<open>nat\<close>s:
    \<open>usize\<close> pointers would need \<open>2^64\<close> pushes to wrap.
  \<open>ar_abs\<close> maps the second to the first, and the refinement lemmas show that every
  operation of the array implementation is the list operation under \<open>ar_abs\<close>.
  \<open>push_samples\<close> is the loop of the data thread that pushes a received chunk
  (\<open>src/src/main.rs\<close>, lines 177--179).
\<close>

datatype ring_error = ZeroCapacity

record 'a ring =
  ring_cap :: nat
  ring_buf :: "'a list"

definition ring_new :: "nat \<Rightarrow> ring_error + 'a ring" where
  "ring_new cap = (if cap = 0 then Inl ZeroCapacity else Inr \<lparr>ring_cap = cap, ring_buf = []\<rparr>)"

definition ring_push :: "'a \<Rightarrow> 'a ring \<Rightarrow> 'a ring" where
  "ring_push x r =
     (if length (ring_buf r) = ring_cap r then r\<lparr>ring_buf := tl (ring_buf r) @ [x]\<rparr>
      else r\<lparr>ring_buf := ring_buf r @ [x]\<rparr>)"

definition ring_to_vec :: "'a ring \<Rightarrow> 'a list" where
  "ring_to_vec r = ring_buf r"

definition ring_wf :: "'a ring \<Rightarrow> bool" where
  "ring_wf r \<longleftrightarrow> 0 < ring_cap r \<and> length (ring_buf r) \<le> ring_cap r"

primrec push_samples :: "'a list \<Rightarrow> 'a ring \<Rightarrow> 'a ring" where
  "push_samples [] r = r"
| "push_samples (x # xs) r = push_samples xs (ring_push x r)"

subsection \<open>The crate's representation\<close>

record 'a alloc_ring =
  ar_capacity :: nat
  ar_slots :: "'a option list"
  ar_readptr :: nat
  ar_writeptr :: nat

definition ar_new :: "nat \<Rightarrow> ring_error + 'a alloc_ring" where
  "ar_new cap =
     (if cap = 0 then Inl ZeroCapacity
      else Inr \<lparr>ar_capacity = cap, ar_slots = replicate cap None, ar_readptr = 0, ar_writeptr = 0\<rparr>)"

definition ar_is_full :: "'a alloc_ring \<Rightarrow> bool" where
  "ar_is_full r \<longleftrightarrow> ar_writeptr r - ar_readptr r = ar_capacity r"

definition ar_push :: "'a \<Rightarrow> 'a alloc_ring \<Rightarrow> 'a alloc_ring" where
  "ar_push x r =
     (let r1 = (if ar_is_full r then r\<lparr>ar_readptr := Suc (ar_readptr r)\<rparr> else r)
      in r1\<lparr>ar_slots := (ar_slots r1)[ar_writeptr r1 mod ar_capacity r1 := Some x],
            ar_writeptr := Suc (ar_writeptr r1)\<rparr>)"

definition ar_view :: "'a alloc_ring \<Rightarrow> 'a option list" where
  "ar_view r = map (\<lambda>i. ar_slots r ! (i mod ar_capacity r)) [ar_readptr r..<ar_writeptr r]"

definition ar_to_vec :: "'a alloc_ring \<Rightarrow> 'a list" where
  "ar_to_vec r = map the (ar_view r)"

definition ar_wf :: "'a alloc_ring \<Rightarrow> bool" where
  "ar_wf r \<longleftrightarrow>
     0 < ar_capacity r \<and> length (ar_slots r) = ar_capacity r \<and>
     ar_readptr r \<le> ar_writeptr r \<and> ar_writeptr r - ar_readptr r \<le> ar_capacity r \<and>
     None \<notin> set (ar_view r)"

definition ar_abs :: "'a alloc_ring \<Rightarrow> 'a ring" where
  "ar_abs r = \<lparr>ring_cap = ar_capacity r, ring_buf = ar_to_vec r\<rparr>"

subsection \<open>Lemmas\<close>

lemma ring_cap_push [simp]: "ring_cap (ring_push x r) = ring_cap r"
  by (simp add: ring_push_def)

lemma ring_buf_push:
  "ring_wf r \<Longrightarrow> ring_buf (ring_push x r) = lastn (ring_cap r) (ring_buf r @ [x])"
  by (simp add: ring_push_def ring_wf_def lastn_snoc)

lemma ring_wf_push: "ring_wf r \<Longrightarrow> ring_wf (ring_push x r)"
  by (auto simp add: ring_wf_def ring_buf_push)

lemma push_samples_cap [simp]: "ring_cap (push_samples xs r) = ring_cap r"
  by (induction xs arbitrary: r) simp_all

lemma push_samples_wf: "ring_wf r \<Longrightarrow> ring_wf (push_samples xs r)"
  by (induction xs arbitrary: r) (simp_all add: ring_wf_push)

lemma push_samples_buf:
  "ring_wf r \<Longrightarrow> ring_buf (push_samples xs r) = lastn (ring_cap r) (ring_buf r @ xs)"
proof (induction xs arbitrary: r)
  case Nil
  then show ?case by (simp add: ring_wf_def)
next
  case (Cons x xs)
  have "ring_buf (push_samples (x # xs) r) = lastn (ring_cap r) (ring_buf (ring_push x r) @ xs)"
    using Cons.IH[OF ring_wf_push[OF Cons.prems]] by simp
  also have "\<dots> = lastn (ring_cap r) (ring_buf r @ x # xs)"
    using Cons.prems by (simp add: ring_buf_push lastn_lastn_append)
  finally show ?case .
qed

lemma mod_neq_recent:
  fixes i w n :: nat
  assumes "i < w" and "w - i < n"
  shows "i mod n \<noteq> w mod n"
proof
  assume "i mod n = w mod n"
  then have "n dvd w - i" using assms(1) mod_eq_dvd_iff_nat[of i w n] by simp
  moreover have "0 < w - i" using assms(1) by simp
  ultimately have "n \<le> w - i" by (rule dvd_imp_le)
  with assms(2) show False by simp
qed

lemma ar_view_update_recent:
  assumes "\<forall>i \<in> set is. i < w \<and> w - i < n"
  shows "map (\<lambda>i. (s[w mod n := v]) ! (i mod n)) is = map (\<lambda>i. s ! (i mod n)) is"
proof (rule map_cong[OF refl])
  fix i assume "i \<in> set is"
  with assms have "i mod n \<noteq> w mod n" by (simp add: mod_neq_recent)
  then show "(s[w mod n := v]) ! (i mod n) = s ! (i mod n)" by simp
qed

lemma ar_view_push:
  assumes "ar_wf r"
  shows "ar_view (ar_push x r) =
           (if ar_is_full r then tl (ar_view r) else ar_view r) @ [Some x]"
proof -
  let ?n = "ar_capacity r" and ?rp = "ar_readptr r" and ?wp = "ar_writeptr r"
  have n: "0 < ?n" and len: "length (ar_slots r) = ?n" and le: "?rp \<le> ?wp"
    and bound: "?wp - ?rp \<le> ?n"
    using assms by (simp_all add: ar_wf_def)
  have last: "(ar_slots r)[?wp mod ?n := Some x] ! (?wp mod ?n) = Some x"
    using n len by simp
  show ?thesis
  proof (cases "ar_is_full r")
    case True
    then have full: "?wp - ?rp = ?n" by (simp add: ar_is_full_def)
    then have rng: "[?rp..<?wp] = ?rp # [Suc ?rp..<?wp]" using n by (simp add: upt_rec)
    have "\<forall>i \<in> set [Suc ?rp..<?wp]. i < ?wp \<and> ?wp - i < ?n" using full by auto
    then show ?thesis using True last full n
      by (simp add: ar_push_def ar_view_def Let_def rng ar_view_update_recent)
  next
    case False
    then have lt: "?wp - ?rp < ?n" using bound by (simp add: ar_is_full_def)
    have "\<forall>i \<in> set [?rp..<?wp]. i < ?wp \<and> ?wp - i < ?n" using lt by auto
    then show ?thesis using False last le
      by (simp add: ar_push_def ar_view_def Let_def ar_view_update_recent)
  qed
qed

lemma ar_wf_push:
  assumes "ar_wf r"
  shows "ar_wf (ar_push x r)"
proof -
  have "None \<notin> set (ar_view (ar_push x r))"
    using assms by (auto simp: ar_view_push ar_wf_def dest: set_tl_sub)
  then show ?thesis
    using assms by (auto simp: ar_wf_def ar_push_def ar_is_full_def Let_def)
qed

lemma ar_push_capacity [simp]: "ar_capacity (ar_push x r) = ar_capacity r"
  by (simp add: ar_push_def Let_def)

lemma ar_abs_wf: "ar_wf r \<Longrightarrow> ring_wf (ar_abs r)"
  by (simp add: ar_wf_def ring_wf_def ar_abs_def ar_to_vec_def ar_view_def)

lemma ar_abs_push: "ar_wf r \<Longrightarrow> ar_abs (ar_push x r) = ring_push x (ar_abs r)"
proof -
  assume wf: "ar_wf r"
  have "ar_is_full r \<longleftrightarrow> length (ar_to_vec r) = ar_capacity r"
    using wf by (auto simp: ar_is_full_def ar_to_vec_def ar_view_def ar_wf_def)
  then show ?thesis
    using wf by (simp add: ar_abs_def ring_push_def ar_to_vec_def ar_view_push map_tl)
qed

lemma ar_new_abs: "map_sum id ar_abs (ar_new cap) = ring_new cap"
  by (simp add: ar_new_def ring_new_def ar_abs_def ar_to_vec_def ar_view_def)

lemma ar_new_wf: "ar_new cap = Inr r \<Longrightarrow> ar_wf r"
  by (auto simp: ar_new_def ar_wf_def ar_view_def split: if_splits)

lemma ar_push_samples_abs:
  "ar_wf r \<Longrightarrow> ar_abs (fold ar_push xs r) = push_samples xs (ar_abs r) \<and> ar_wf (fold ar_push xs r)"
  by (induction xs arbitrary: r) (simp_all add: ar_abs_push ar_wf_push)

subsection \<open>Properties of the ring buffer\<close>

text \<open>C12. The crate's slot-array ring buffer implements the list model: a buffer made by \<open>new\<close> abstracts to the list model's new buffer, and after any sequence of pushes it is well formed and abstracts to the list model after the same pushes.\<close>

theorem alloc_ring_refines_ring:
  "ar_new cap = Inr r \<Longrightarrow>
     ring_new cap = Inr (ar_abs r) \<and>
     ar_abs (fold ar_push xs r) = push_samples xs (ar_abs r) \<and> ar_wf (fold ar_push xs r)"
proof -
  assume n: "ar_new cap = Inr r"
  have "map_sum id ar_abs (ar_new cap :: ring_error + 'a alloc_ring) = ring_new cap"
    by (rule ar_new_abs)
  then have "ring_new cap = Inr (ar_abs r)" using n by simp
  with ar_push_samples_abs[OF ar_new_wf[OF n]] show ?thesis by simp
qed

theorem alloc_ring_refines_ring_witness:
  "ar_new 2 = Inr \<lparr>ar_capacity = 2, ar_slots = [None, None :: int option], ar_readptr = 0, ar_writeptr = 0\<rparr> \<and>
   ar_to_vec (fold ar_push [1, 2, 3 :: int]
     \<lparr>ar_capacity = 2, ar_slots = [None, None], ar_readptr = 0, ar_writeptr = 0\<rparr>) = [2, 3]"
proof -
  let ?r = "\<lparr>ar_capacity = 2, ar_slots = [None, None :: int option], ar_readptr = 0, ar_writeptr = 0\<rparr>"
  have n: "ar_new 2 = Inr ?r" by (simp add: ar_new_def numeral_2_eq_2)
  from alloc_ring_refines_ring[OF n, of "[1, 2, 3]"] have
    "ring_buf (ar_abs (fold ar_push [1, 2, 3] ?r)) = ring_buf (push_samples [1, 2, 3] (ar_abs ?r))"
    by simp
  also have "\<dots> = [2, 3]"
    by (simp add: ar_abs_def ar_to_vec_def ar_view_def ring_push_def)
  finally show ?thesis using n by (simp add: ar_abs_def)
qed

text \<open>C13. A ring buffer of capacity \<open>cap\<close> holds, after any sequence of pushes from empty, exactly the newest \<open>cap\<close> samples in arrival order (a true ring, oldest evicted).\<close>

theorem ring_keeps_newest:
  "ring_new cap = Inr r \<Longrightarrow> ring_to_vec (push_samples xs r) = lastn cap xs"
  by (auto simp: ring_new_def ring_to_vec_def push_samples_buf ring_wf_def split: if_splits)

theorem ring_keeps_newest_witness:
  "ring_new 2 = Inr \<lparr>ring_cap = 2, ring_buf = [] :: int list\<rparr> \<and>
   ring_to_vec (push_samples [1, 2, 3 :: int] \<lparr>ring_cap = 2, ring_buf = []\<rparr>) = [2, 3]"
proof -
  have n: "ring_new 2 = Inr \<lparr>ring_cap = 2, ring_buf = ([] :: int list)\<rparr>" by (simp add: ring_new_def)
  from ring_keeps_newest[OF n, of "[1, 2, 3]"] n show ?thesis by (simp add: lastn_def)
qed

end
