(* ===== verification/Resampler.thy ===== *)
theory Resampler
  imports Prelude
begin

text \<open>
  The Resample Stage: \<open>rubato::FftFixedInOut\<close>, which the data thread builds once
  (\<open>src/src/main.rs\<close>, lines 167--173) and calls once per window (line 184). The crate is
  not part of the repository; it is modelled by its documented contract (spec section
  4.3). The constructor rounds the requested input chunk up to a whole number of FFT
  blocks: with \<open>g = gcd rate_in rate_out\<close>, one block is \<open>rate_in div g\<close> input frames and
  \<open>rate_out div g\<close> output frames, and the resampler takes
  \<open>ceil (chunk_size_in / (rate_in div g))\<close> blocks. A call accepts exactly \<open>rs_channels\<close>
  channels of exactly \<open>rs_frames_in\<close> frames, anything else is an error; the FFT itself
  is the kernel \<open>rs_kernel\<close>, a function of the resampler's state \<open>'s\<close> (the overlap it
  keeps between calls) that is left abstract, with \<open>resampler_wf\<close> the promise that it
  returns \<open>rs_channels\<close> channels of \<open>rs_frames_out\<close> frames.
\<close>

datatype resample_error = WrongNumberOfChannels nat nat | WrongNumberOfFrames nat nat

record ('a, 's) resampler =
  rs_channels :: nat
  rs_frames_in :: nat
  rs_frames_out :: nat
  rs_state :: 's
  rs_kernel :: "'s \<Rightarrow> 'a list list \<Rightarrow> 's \<times> 'a list list"

text \<open>
  \<open>FftFixedInOut::new(rate_in, rate_out, chunk_size_in, channels)\<close>. The ceiling of the
  crate's floating-point division is the integer ceiling here (exact for the program's
  values, all below \<open>2^24\<close>); a zero rate, chunk or channel count is refused.
\<close>

definition fft_fixed_in_out_new ::
  "nat \<Rightarrow> nat \<Rightarrow> nat \<Rightarrow> nat \<Rightarrow> ('s \<Rightarrow> 'a list list \<Rightarrow> 's \<times> 'a list list) \<Rightarrow> 's \<Rightarrow>
   ('a, 's) resampler option" where
  "fft_fixed_in_out_new rate_in rate_out chunk_in channels fft s0 =
     (if rate_in = 0 \<or> rate_out = 0 \<or> chunk_in = 0 \<or> channels = 0 then None
      else let g = gcd rate_in rate_out;
               min_chunk_in = rate_in div g;
               fft_chunks = (chunk_in + min_chunk_in - 1) div min_chunk_in
           in Some \<lparr>rs_channels = channels, rs_frames_in = fft_chunks * rate_in div g,
                    rs_frames_out = fft_chunks * rate_out div g,
                    rs_state = s0, rs_kernel = fft\<rparr>)"

definition resampler_process ::
  "('a, 's) resampler \<Rightarrow> 'a list list \<Rightarrow> resample_error + ('a, 's) resampler \<times> 'a list list" where
  "resampler_process rs wave_in =
     (if length wave_in \<noteq> rs_channels rs
      then Inl (WrongNumberOfChannels (length wave_in) (rs_channels rs))
      else case find (\<lambda>ch. length ch \<noteq> rs_frames_in rs) wave_in of
        Some ch \<Rightarrow> Inl (WrongNumberOfFrames (length ch) (rs_frames_in rs))
      | None \<Rightarrow> (case rs_kernel rs (rs_state rs) wave_in of
                  (s', wave_out) \<Rightarrow> Inr (rs\<lparr>rs_state := s'\<rparr>, wave_out)))"

definition resampler_wf :: "('a, 's) resampler \<Rightarrow> bool" where
  "resampler_wf rs \<longleftrightarrow>
     (\<forall>s wave. length wave = rs_channels rs \<and> (\<forall>ch \<in> set wave. length ch = rs_frames_in rs) \<longrightarrow>
        length (snd (rs_kernel rs s wave)) = rs_channels rs \<and>
        (\<forall>ch \<in> set (snd (rs_kernel rs s wave)). length ch = rs_frames_out rs))"

subsection \<open>Lemmas\<close>

lemma resampler_process_ok:
  assumes wf: "resampler_wf rs" and ch: "rs_channels rs = 1" and len: "length w = rs_frames_in rs"
  shows "\<exists>out. rs_kernel rs (rs_state rs) [w] = (fst (rs_kernel rs (rs_state rs) [w]), [out]) \<and>
           length out = rs_frames_out rs \<and>
           resampler_process rs [w] = Inr (rs\<lparr>rs_state := fst (rs_kernel rs (rs_state rs) [w])\<rparr>, [out])"
proof -
  obtain s' wave where k: "rs_kernel rs (rs_state rs) [w] = (s', wave)" by fastforce
  have pre: "length [w] = rs_channels rs \<and> (\<forall>c \<in> set [w]. length c = rs_frames_in rs)"
    using ch len by simp
  have "length wave = rs_channels rs \<and> (\<forall>c \<in> set wave. length c = rs_frames_out rs)"
    using wf pre k unfolding resampler_wf_def by (metis snd_conv)
  then have "length wave = 1" and lens: "\<forall>c \<in> set wave. length c = rs_frames_out rs"
    using ch by simp_all
  then obtain out where "wave = [out]" by (cases wave) auto
  with k lens ch len show ?thesis by (simp add: resampler_process_def)
qed

lemma resampler_wf_state [simp]: "resampler_wf (rs\<lparr>rs_state := s\<rparr>) = resampler_wf rs"
  by (simp add: resampler_wf_def)

lemma resampler_process_one_channel:
  "resampler_process rs [w] =
     (if rs_channels rs \<noteq> 1 then Inl (WrongNumberOfChannels 1 (rs_channels rs))
      else if length w \<noteq> rs_frames_in rs then Inl (WrongNumberOfFrames (length w) (rs_frames_in rs))
      else case rs_kernel rs (rs_state rs) [w] of (s', out) \<Rightarrow> Inr (rs\<lparr>rs_state := s'\<rparr>, out))"
  by (simp add: resampler_process_def)

text \<open>The ceiling division that counts the FFT blocks.\<close>

lemma ceil_div_bounds:
  assumes m: "0 < (m::nat)"
  shows "n \<le> (n + m - 1) div m * m" and "(n + m - 1) div m * m < n + m"
    and "(n + m - 1) div m * m = n \<longleftrightarrow> m dvd n"
proof -
  let ?k = "(n + m - 1) div m"
  have dm: "?k * m + (n + m - 1) mod m + 1 = n + m" using m by simp
  have r: "(n + m - 1) mod m < m" using m by simp
  show "n \<le> ?k * m" using dm r by linarith
  show "?k * m < n + m" using dm by linarith
  show "?k * m = n \<longleftrightarrow> m dvd n"
  proof
    assume "?k * m = n" then show "m dvd n" by (metis dvd_triv_right)
  next
    assume "m dvd n"
    then obtain j where n: "n = j * m" by (metis dvd_div_mult_self)
    with m have e: "n + m - 1 = (m - 1) + j * m" by simp
    have "?k = ((m - 1) + j * m) div m" by (simp only: e)
    also have "\<dots> = j + (m - 1) div m" using m by (simp only: div_mult_self1 neq0_conv)
    also have "\<dots> = j" using m by simp
    finally have "?k = j" .
    with n show "?k * m = n" by simp
  qed
qed

lemma fft_fixed_in_out_new_eq:
  assumes "fft_fixed_in_out_new rate_in rate_out chunk_in channels fft s0 = Some rs"
  obtains g m m' where "0 < g" "0 < m" "rate_in = m * g" "rate_out = m' * g"
    "m = rate_in div gcd rate_in rate_out"
    "rs = \<lparr>rs_channels = channels, rs_frames_in = (chunk_in + m - 1) div m * m,
           rs_frames_out = (chunk_in + m - 1) div m * m', rs_state = s0, rs_kernel = fft\<rparr>"
proof -
  define g where "g = gcd rate_in rate_out"
  have pos: "0 < rate_in" "0 < rate_out"
    using assms by (auto simp: fft_fixed_in_out_new_def split: if_splits)
  then have g: "0 < g" by (simp add: g_def)
  obtain m m' where m: "rate_in = m * g" "rate_out = m' * g"
    unfolding g_def by (metis dvd_div_mult_self gcd_dvd1 gcd_dvd2)
  with pos have "0 < m" by (metis gr0I mult_zero_left)
  have md: "rate_in div g = m" "rate_out div g = m'" using g by (simp_all add: m)
  have "k * rate_in div g = k * m" "k * rate_out div g = k * m'" for k
    using g by (simp_all add: m)
  with assms pos md have rs: "rs = \<lparr>rs_channels = channels, rs_frames_in = (chunk_in + m - 1) div m * m,
      rs_frames_out = (chunk_in + m - 1) div m * m', rs_state = s0, rs_kernel = fft\<rparr>"
    by (auto simp: fft_fixed_in_out_new_def Let_def g_def[symmetric] split: if_splits)
  have "m = rate_in div gcd rate_in rate_out" using md(1) unfolding g_def by (rule sym)
  from that[OF g \<open>0 < m\<close> m this rs] show thesis .
qed

lemma fft_fixed_in_out_new_same_rate:
  assumes "0 < rate_in" "0 < rate_out" "0 < channels"
  shows "fft_fixed_in_out_new rate_in rate_out rate_in channels fft s0 =
           Some \<lparr>rs_channels = channels, rs_frames_in = rate_in, rs_frames_out = rate_out,
                 rs_state = s0, rs_kernel = fft\<rparr>"
proof -
  obtain rs where new: "fft_fixed_in_out_new rate_in rate_out rate_in channels fft s0 = Some rs"
    using assms by (simp add: fft_fixed_in_out_new_def Let_def)
  then obtain g m m' where g: "0 < g" "0 < m" and r: "rate_in = m * g" "rate_out = m' * g"
    and rs: "rs = \<lparr>rs_channels = channels, rs_frames_in = (rate_in + m - 1) div m * m,
           rs_frames_out = (rate_in + m - 1) div m * m', rs_state = s0, rs_kernel = fft\<rparr>"
    by (rule fft_fixed_in_out_new_eq)
  have "(rate_in + m - 1) div m * m = rate_in"
    using ceil_div_bounds(3)[OF g(2)] r by simp
  then have "(rate_in + m - 1) div m = g" using g r by (metis mult.commute mult_left_cancel neq0_conv)
  with new rs r show ?thesis by (simp add: mult.commute)
qed

text \<open>C35. The FFT resampler's constructor rounds the requested chunk up to whole FFT
  blocks of \<open>rate_in div gcd rate_in rate_out\<close> frames: the accepted input length is at
  least the requested chunk and less than one block more, equal to it exactly when a
  block divides it, and input and output lengths are always in the exact ratio of the
  two rates. When the chunk is the input rate itself, as the data thread asks for
  (lines 167--172), the resampler takes exactly \<open>rate_in\<close> frames and returns exactly
  \<open>rate_out\<close>, whatever the two rates are.\<close>

theorem fft_fixed_in_out_new_frames:
  assumes new: "fft_fixed_in_out_new rate_in rate_out chunk_in channels fft s0 = Some rs"
  shows "rs_channels rs = channels \<and> chunk_in \<le> rs_frames_in rs \<and>
         rs_frames_in rs < chunk_in + rate_in div gcd rate_in rate_out \<and>
         (rs_frames_in rs = chunk_in \<longleftrightarrow> rate_in div gcd rate_in rate_out dvd chunk_in) \<and>
         rs_frames_in rs * rate_out = rs_frames_out rs * rate_in \<and>
         (chunk_in = rate_in \<longrightarrow> rs_frames_in rs = rate_in \<and> rs_frames_out rs = rate_out)"
proof -
  obtain g m m' where g: "0 < g" "0 < m" and r: "rate_in = m * g" "rate_out = m' * g"
    and m: "m = rate_in div gcd rate_in rate_out"
    and rs: "rs = \<lparr>rs_channels = channels, rs_frames_in = (chunk_in + m - 1) div m * m,
           rs_frames_out = (chunk_in + m - 1) div m * m', rs_state = s0, rs_kernel = fft\<rparr>"
    using new by (rule fft_fixed_in_out_new_eq)
  have pos: "0 < rate_in" "0 < rate_out" "0 < channels"
    using new by (auto simp: fft_fixed_in_out_new_def split: if_splits)
  have ratio: "rs_frames_in rs * rate_out = rs_frames_out rs * rate_in"
    using rs r by (simp add: ac_simps)
  have same: "chunk_in = rate_in \<longrightarrow> rs_frames_in rs = rate_in \<and> rs_frames_out rs = rate_out"
    using new fft_fixed_in_out_new_same_rate[OF pos, of fft s0] by auto
  show ?thesis
    using ceil_div_bounds[OF g(2), of chunk_in] rs m ratio same by simp
qed

theorem fft_fixed_in_out_new_frames_witness:
  "fft_fixed_in_out_new 44100 16000 1000 1 (\<lambda>s (w :: rat list list). (s, w)) () =
     Some \<lparr>rs_channels = 1, rs_frames_in = 1323, rs_frames_out = 480, rs_state = (),
           rs_kernel = \<lambda>s w. (s, w)\<rparr> \<and>
   (1000::nat) \<le> 1323 \<and> (1323::nat) < 1000 + 44100 div gcd 44100 16000 \<and>
   \<not> (44100 div gcd 44100 16000 dvd (1000::nat)) \<and> (1323::nat) * 16000 = 480 * 44100"
proof -
  have new: "fft_fixed_in_out_new 44100 16000 1000 1 (\<lambda>s (w :: rat list list). (s, w)) () =
     Some \<lparr>rs_channels = 1, rs_frames_in = 1323, rs_frames_out = 480, rs_state = (),
           rs_kernel = \<lambda>s w. (s, w)\<rparr>"
    by (simp add: fft_fixed_in_out_new_def gcd_nat.simps)
  from fft_fixed_in_out_new_frames[OF new] new show ?thesis by simp
qed

end
