(* ===== verification/Accumulator.thy ===== *)
theory Accumulator
  imports RingBuffer Config Resampler
begin

text \<open>
  The Window Accumulator: the data thread of \<open>src/src/main.rs\<close> (lines 162--188) and
  the resampler it drives. The thread owns a ring buffer of capacity \<open>W\<close> and a
  \<open>usize\<close> counter \<open>sample_count\<close>; for every chunk received it adds the chunk's length
  to the counter (wrapping, as a release build does), pushes the samples, and once the
  counter reaches \<open>W\<close> it resets the counter, hands the whole buffer to the resampler
  and sends channel 0 of the result to the inference thread. \<open>W\<close> is a parameter here;
  the program uses \<open>window_len = BUFFER_SIZE * SECONDS\<close> for both the capacity and the
  threshold.

  The resampler is the one of theory \<open>Resampler\<close>; the data thread asks it for one
  channel of \<open>W\<close> frames.
\<close>

subsection \<open>The data thread\<close>

datatype data_panic =
    RingAlloc ring_error       \<comment> \<open>\<open>AllocRingBuffer::new\<close> with capacity 0\<close>
  | ResamplerInit              \<comment> \<open>\<open>FftFixedInOut::new(..).unwrap()\<close>, line 173\<close>
  | ResampleFailed resample_error  \<comment> \<open>\<open>resampler.process(..).unwrap()\<close>, line 184\<close>
  | NoOutputChannel            \<comment> \<open>\<open>downsample[0]\<close> out of range, line 185\<close>
  | InferenceSendFailed        \<comment> \<open>\<open>inference_tx_clone.send(..).unwrap()\<close>, line 185\<close>

record ('a, 's) data_thread =
  buffer :: "'a ring"
  sample_count :: usize
  resampler :: "('a, 's) resampler"

definition data_thread_init ::
  "nat \<Rightarrow> ('a, 's) resampler option \<Rightarrow> data_panic + ('a, 's) data_thread" where
  "data_thread_init W rs =
     (case ring_new W of
        Inl e \<Rightarrow> Inl (RingAlloc e)
      | Inr buf \<Rightarrow>
          (case rs of
             None \<Rightarrow> Inl ResamplerInit
           | Some r \<Rightarrow> Inr \<lparr>buffer = buf, sample_count = 0, resampler = r\<rparr>))"

text \<open>
  Counting and pushing one received chunk, and the emission test (lines 176--183): the
  new buffer, the new counter and the window to resample, if any.
\<close>

definition accumulate ::
  "nat \<Rightarrow> 'a ring \<times> usize \<Rightarrow> 'a chunk \<Rightarrow> ('a ring \<times> usize) \<times> 'a list option" where
  "accumulate W st samples =
     (case st of (buf, sc) \<Rightarrow>
        let sc' = sc + of_nat (length samples);
            buf' = push_samples samples buf
        in if (of_nat W :: usize) \<le> sc' then ((buf', 0), Some (ring_to_vec buf'))
           else ((buf', sc'), None))"

text \<open>
  One iteration of \<open>while let Ok(samples) = audio_rx.recv()\<close> (lines 175--187);
  \<open>receiver_alive\<close> says whether the inference thread still holds its receiver.
\<close>

definition data_thread_recv ::
  "nat \<Rightarrow> bool \<Rightarrow> ('a, 's) data_thread \<Rightarrow> 'a chunk \<Rightarrow>
   data_panic + ('a, 's) data_thread \<times> 'a chunk option" where
  "data_thread_recv W receiver_alive dt samples =
     (case accumulate W (buffer dt, sample_count dt) samples of
        ((buf', sc'), None) \<Rightarrow> Inr (dt\<lparr>buffer := buf', sample_count := sc'\<rparr>, None)
      | ((buf', sc'), Some window) \<Rightarrow>
          (case resampler_process (resampler dt) [window] of
             Inl e \<Rightarrow> Inl (ResampleFailed e)
           | Inr (rs', downsample) \<Rightarrow>
               (case downsample of
                  [] \<Rightarrow> Inl NoOutputChannel
                | ch0 # _ \<Rightarrow>
                    if receiver_alive
                    then Inr (\<lparr>buffer = buf', sample_count = sc', resampler = rs'\<rparr>, Some ch0)
                    else Inl InferenceSendFailed)))"

text \<open>The loop over the chunks received before the channel closes; the inference
  thread's receiver is alive throughout.\<close>

fun data_thread_run ::
  "nat \<Rightarrow> ('a, 's) data_thread \<Rightarrow> 'a chunk list \<Rightarrow>
   data_panic + ('a, 's) data_thread \<times> 'a chunk list" where
  "data_thread_run W dt [] = Inr (dt, [])"
| "data_thread_run W dt (c # cs) =
     (case data_thread_recv W True dt c of
        Inl e \<Rightarrow> Inl e
      | Inr (dt', out) \<Rightarrow>
          (case data_thread_run W dt' cs of
             Inl e \<Rightarrow> Inl e
           | Inr (dt'', outs) \<Rightarrow> Inr (dt'', (case out of None \<Rightarrow> outs | Some w \<Rightarrow> w # outs))))"

definition data_inv :: "nat \<Rightarrow> ('a, 's) data_thread \<Rightarrow> bool" where
  "data_inv W dt \<longleftrightarrow>
     ring_wf (buffer dt) \<and> ring_cap (buffer dt) = W \<and>
     unat (sample_count dt) < W \<and> unat (sample_count dt) \<le> length (ring_buf (buffer dt)) \<and>
     rs_channels (resampler dt) = 1 \<and> rs_frames_in (resampler dt) = W \<and>
     resampler_wf (resampler dt)"

subsection \<open>The abstract window specification\<close>

text \<open>
  Spec section 4.2 in terms of the whole sample history: \<open>p\<close> counts the samples since
  the last emission; a chunk that brings \<open>p\<close> to \<open>W\<close> or beyond emits the newest \<open>W\<close>
  samples of the history and resets \<open>p\<close> to 0 (the remainder of the chunk is not
  carried over). \<open>resample_windows\<close> threads the resampler's state through the
  windows in order and keeps channel 0 of each result.
\<close>

fun windows_spec :: "nat \<Rightarrow> nat \<Rightarrow> 'a list \<Rightarrow> 'a chunk list \<Rightarrow> 'a list list" where
  "windows_spec W p hist [] = []"
| "windows_spec W p hist (c # cs) =
     (if W \<le> p + length c then lastn W (hist @ c) # windows_spec W 0 (hist @ c) cs
      else windows_spec W (p + length c) (hist @ c) cs)"

fun resample_windows ::
  "('s \<Rightarrow> 'a list list \<Rightarrow> 's \<times> 'a list list) \<Rightarrow> 's \<Rightarrow> 'a list list \<Rightarrow> 'a list list" where
  "resample_windows k s [] = []"
| "resample_windows k s (w # ws) = (case k s [w] of (s', out) \<Rightarrow> hd out # resample_windows k s' ws)"

subsection \<open>Lemmas\<close>

lemma accumulate_eq:
  assumes wf: "ring_wf buf" and cap: "ring_cap buf = W"
    and sc: "unat sc < W" and nowrap: "W + length samples < 2 ^ 64"
  shows "accumulate W (buf, sc) samples =
    (if W \<le> unat sc + length samples
     then ((push_samples samples buf, 0), Some (lastn W (ring_buf buf @ samples)))
     else ((push_samples samples buf, sc + of_nat (length samples)), None))"
proof -
  have add: "unat (sc + of_nat (length samples)) = unat sc + length samples"
    using sc nowrap by (simp add: unat_usize_add)
  have "W < 2 ^ 64" using nowrap by simp
  then have "(of_nat W :: usize) \<le> sc + of_nat (length samples) \<longleftrightarrow> W \<le> unat sc + length samples"
    by (simp add: usize_of_nat_le add)
  then show ?thesis
    using wf cap by (simp add: accumulate_def Let_def ring_to_vec_def push_samples_buf)
qed

lemma data_inv_facts:
  assumes "data_inv W dt"
  shows "ring_wf (buffer dt)" "ring_cap (buffer dt) = W" "unat (sample_count dt) < W"
    "unat (sample_count dt) \<le> length (ring_buf (buffer dt))"
    "rs_channels (resampler dt) = 1" "rs_frames_in (resampler dt) = W"
    "resampler_wf (resampler dt)"
  using assms by (simp_all add: data_inv_def)

lemma data_thread_recv_quiet:
  assumes inv: "data_inv W dt" and nowrap: "W + length samples < 2 ^ 64"
    and quiet: "\<not> W \<le> unat (sample_count dt) + length samples"
  shows "data_thread_recv W alive dt samples =
           Inr (dt\<lparr>buffer := push_samples samples (buffer dt),
                   sample_count := sample_count dt + of_nat (length samples)\<rparr>, None)"
  using accumulate_eq[OF data_inv_facts(1,2,3)[OF inv] nowrap] quiet
  by (simp add: data_thread_recv_def)

lemma data_thread_recv_emit:
  assumes inv: "data_inv W dt" and nowrap: "W + length samples < 2 ^ 64"
    and emit: "W \<le> unat (sample_count dt) + length samples"
    and k: "rs_kernel (resampler dt) (rs_state (resampler dt))
              [lastn W (ring_buf (buffer dt) @ samples)] = (s', [out])"
  shows "data_thread_recv W True dt samples =
           Inr (\<lparr>buffer = push_samples samples (buffer dt), sample_count = 0,
                 resampler = (resampler dt)\<lparr>rs_state := s'\<rparr>\<rparr>, Some out)"
proof -
  let ?win = "lastn W (ring_buf (buffer dt) @ samples)"
  have "length ?win = W" using emit data_inv_facts(4)[OF inv] by simp
  then have "resampler_process (resampler dt) [?win] = Inr ((resampler dt)\<lparr>rs_state := s'\<rparr>, [out])"
    using k data_inv_facts(5,6)[OF inv] by (simp add: resampler_process_def)
  then show ?thesis
    using accumulate_eq[OF data_inv_facts(1,2,3)[OF inv] nowrap] emit
    by (simp add: data_thread_recv_def)
qed

lemma data_kernel_shape:
  assumes inv: "data_inv W dt" and emit: "W \<le> unat (sample_count dt) + length samples"
  obtains s' out where
    "rs_kernel (resampler dt) (rs_state (resampler dt)) [lastn W (ring_buf (buffer dt) @ samples)] = (s', [out])"
    "length out = rs_frames_out (resampler dt)"
proof -
  let ?win = "lastn W (ring_buf (buffer dt) @ samples)"
  have "length ?win = rs_frames_in (resampler dt)"
    using emit data_inv_facts(4,6)[OF inv] by simp
  with resampler_process_ok[OF data_inv_facts(7,5)[OF inv]] that show ?thesis by blast
qed

lemma data_inv_recv:
  assumes inv: "data_inv W dt" and nowrap: "W + length samples < 2 ^ 64"
    and step: "data_thread_recv W alive dt samples = Inr (dt', out)"
  shows "data_inv W dt'"
proof (cases "W \<le> unat (sample_count dt) + length samples")
  case True
  then obtain s' w where k: "rs_kernel (resampler dt) (rs_state (resampler dt))
              [lastn W (ring_buf (buffer dt) @ samples)] = (s', [w])"
    using data_kernel_shape[OF inv] by blast
  have "alive"
  proof (rule ccontr)
    assume "\<not> alive"
    then show False
      using step k accumulate_eq[OF data_inv_facts(1,2,3)[OF inv] nowrap] True
        data_inv_facts(4,5,6)[OF inv]
      by (simp add: data_thread_recv_def resampler_process_def)
  qed
  with data_thread_recv_emit[OF inv nowrap True k] step have
    "dt' = \<lparr>buffer = push_samples samples (buffer dt), sample_count = 0,
            resampler = (resampler dt)\<lparr>rs_state := s'\<rparr>\<rparr>" by simp
  then show ?thesis
    using inv True by (simp add: data_inv_def push_samples_wf push_samples_buf)
next
  case False
  have "unat (sample_count dt + of_nat (length samples)) = unat (sample_count dt) + length samples"
    using data_inv_facts(3)[OF inv] nowrap by (simp add: unat_usize_add)
  moreover have "dt' = dt\<lparr>buffer := push_samples samples (buffer dt),
                   sample_count := sample_count dt + of_nat (length samples)\<rparr>"
    using data_thread_recv_quiet[OF inv nowrap False] step by simp
  ultimately show ?thesis
    using inv False by (simp add: data_inv_def push_samples_wf push_samples_buf)
qed


lemma data_thread_run_spec:
  assumes "data_inv W dt" and "ring_buf (buffer dt) = lastn W hist"
    and "\<forall>c \<in> set cs. W + length c < 2 ^ 64"
  shows "\<exists>dt'. data_thread_run W dt cs =
      Inr (dt', resample_windows (rs_kernel (resampler dt)) (rs_state (resampler dt))
                  (windows_spec W (unat (sample_count dt)) hist cs)) \<and>
      data_inv W dt' \<and> ring_buf (buffer dt') = lastn W (hist @ concat cs) \<and>
      rs_kernel (resampler dt') = rs_kernel (resampler dt)"
  using assms
proof (induction cs arbitrary: dt hist)
  case Nil
  then show ?case by simp
next
  case (Cons c cs)
  note inv = Cons.prems(1) and nowrap = Cons.prems(3)
  have nw: "W + length c < 2 ^ 64" using nowrap by simp
  have buf': "ring_buf (push_samples c (buffer dt)) = lastn W (hist @ c)"
    using data_inv_facts(1,2)[OF inv] Cons.prems(2) by (simp add: push_samples_buf lastn_lastn_append)
  show ?case
  proof (cases "W \<le> unat (sample_count dt) + length c")
    case True
    obtain s' w where k: "rs_kernel (resampler dt) (rs_state (resampler dt))
              [lastn W (ring_buf (buffer dt) @ c)] = (s', [w])"
      using data_kernel_shape[OF inv True] by blast
    let ?dt = "\<lparr>buffer = push_samples c (buffer dt), sample_count = 0,
                 resampler = (resampler dt)\<lparr>rs_state := s'\<rparr>\<rparr>"
    have step: "data_thread_recv W True dt c = Inr (?dt, Some w)"
      by (rule data_thread_recv_emit[OF inv nw True k])
    have inv': "data_inv W ?dt" by (rule data_inv_recv[OF inv nw step])
    have k': "rs_kernel (resampler dt) (rs_state (resampler dt)) [lastn W (hist @ c)] = (s', [w])"
      using k Cons.prems(2) by (simp add: lastn_lastn_append)
    have h2: "ring_buf (buffer ?dt) = lastn W (hist @ c)" using buf' by simp
    have h3: "\<forall>c \<in> set cs. W + length c < 2 ^ 64" using nowrap by simp
    from Cons.IH[of ?dt "hist @ c", OF inv' h2 h3] obtain dt' where
      "data_thread_run W ?dt cs = Inr (dt', resample_windows (rs_kernel (resampler dt)) s'
                  (windows_spec W 0 (hist @ c) cs))"
      "data_inv W dt'" "ring_buf (buffer dt') = lastn W ((hist @ c) @ concat cs)"
      "rs_kernel (resampler dt') = rs_kernel (resampler dt)"
      by auto
    then show ?thesis using step True k' by simp
  next
    case False
    let ?dt = "dt\<lparr>buffer := push_samples c (buffer dt),
                   sample_count := sample_count dt + of_nat (length c)\<rparr>"
    have step: "data_thread_recv W True dt c = Inr (?dt, None)"
      by (rule data_thread_recv_quiet[OF inv nw False])
    have inv': "data_inv W ?dt" by (rule data_inv_recv[OF inv nw step])
    have add: "unat (sample_count dt + of_nat (length c)) = unat (sample_count dt) + length c"
      using data_inv_facts(3)[OF inv] nw by (simp add: unat_usize_add)
    have h2: "ring_buf (buffer ?dt) = lastn W (hist @ c)" using buf' by simp
    have h3: "\<forall>c \<in> set cs. W + length c < 2 ^ 64" using nowrap by simp
    from Cons.IH[of ?dt "hist @ c", OF inv' h2 h3] add obtain dt' where
      "data_thread_run W ?dt cs = Inr (dt', resample_windows (rs_kernel (resampler dt)) (rs_state (resampler dt))
                  (windows_spec W (unat (sample_count dt) + length c) (hist @ c) cs))"
      "data_inv W dt'" "ring_buf (buffer dt') = lastn W ((hist @ c) @ concat cs)"
      "rs_kernel (resampler dt') = rs_kernel (resampler dt)"
      by auto
    then show ?thesis using step False by simp
  qed
qed


lemma windows_spec_length:
  "p \<le> length hist \<Longrightarrow> w \<in> set (windows_spec W p hist cs) \<Longrightarrow> length w = W"
proof (induction cs arbitrary: p hist)
  case (Cons c cs)
  show ?case
  proof (cases "W \<le> p + length c")
    case True
    with Cons.prems Cons.IH[of 0 "hist @ c"] show ?thesis by auto
  next
    case False
    with Cons.prems Cons.IH[of "p + length c" "hist @ c"] show ?thesis by simp
  qed
qed simp

lemma windows_spec_count:
  "length (windows_spec W p hist cs) * W \<le> p + sum_list (map length cs)"
proof (induction cs arbitrary: p hist)
  case (Cons c cs)
  show ?case
  proof (cases "W \<le> p + length c")
    case True
    with Cons.IH[of 0 "hist @ c"] show ?thesis by simp
  next
    case False
    with Cons.IH[of "p + length c" "hist @ c"] show ?thesis by simp
  qed
qed simp

lemma windows_spec_aligned:
  assumes "\<forall>c \<in> set cs. length c = k" and "0 < k" and "k dvd W" and "k dvd p" and "p < W"
  shows "length (windows_spec W p hist cs) = (p + sum_list (map length cs)) div W"
  using assms
proof (induction cs arbitrary: p hist)
  case Nil
  then show ?case by simp
next
  case (Cons c cs)
  have lc: "length c = k" using Cons.prems(1) by simp
  have sum: "sum_list (map length cs) = length cs * k"
    using Cons.prems(1) by (induction cs) auto
  show ?case
  proof (cases "W \<le> p + k")
    case True
    have "p + k = W"
    proof -
      obtain a where a: "p = k * a" using Cons.prems(4) by blast
      obtain b where b: "W = k * b" using Cons.prems(3) by blast
      from a b Cons.prems(5) have "a < b" by simp
      then have "k * (a + 1) \<le> k * b" by (intro mult_le_mono2) simp
      with a b True show ?thesis by simp
    qed
    then have "length (windows_spec W 0 (hist @ c) cs) = sum_list (map length cs) div W"
      using Cons by simp
    moreover have "(W + sum_list (map length cs)) div W = Suc (sum_list (map length cs) div W)"
      using Cons.prems(5) by (simp add: div_add_self1)
    ultimately show ?thesis using True lc \<open>p + k = W\<close> by (simp add: add.assoc[symmetric])
  next
    case False
    have "k dvd p + k" using Cons.prems(4) by simp
    then have "length (windows_spec W (p + k) (hist @ c) cs) = (p + k + sum_list (map length cs)) div W"
      using Cons False by simp
    then show ?thesis using False lc by (simp add: add.assoc)
  qed
qed

lemma length_resample_windows [simp]: "length (resample_windows k s ws) = length ws"
  by (induction ws arbitrary: s) (auto split: prod.splits)

lemma resample_windows_lengths:
  assumes "resampler_wf rs" and "rs_channels rs = 1"
    and "\<forall>w \<in> set ws. length w = rs_frames_in rs"
  shows "\<forall>out \<in> set (resample_windows (rs_kernel rs) s ws). length out = rs_frames_out rs"
  using assms(3)
proof (induction ws arbitrary: s)
  case (Cons w ws)
  obtain s' wave where k: "rs_kernel rs s [w] = (s', wave)" by fastforce
  have pre: "length [w] = rs_channels rs \<and> (\<forall>c \<in> set [w]. length c = rs_frames_in rs)"
    using assms(2) Cons.prems by simp
  have "length wave = rs_channels rs \<and> (\<forall>c \<in> set wave. length c = rs_frames_out rs)"
    using assms(1) pre k unfolding resampler_wf_def by (metis snd_conv)
  then have "length wave = 1 \<and> (\<forall>c \<in> set wave. length c = rs_frames_out rs)"
    using assms(2) by simp
  then have "length (hd wave) = rs_frames_out rs" by (cases wave) auto
  with Cons k show ?case by simp
qed simp

lemma data_thread_init_inv:
  assumes "data_thread_init W (Some rs) = Inr dt" and "resampler_wf rs"
    and "rs_channels rs = 1" and "rs_frames_in rs = W"
  shows "data_inv W dt \<and> ring_buf (buffer dt) = [] \<and> sample_count dt = 0 \<and> resampler dt = rs"
  using assms
  by (auto simp: data_thread_init_def ring_new_def data_inv_def ring_wf_def split: if_splits)


lemma data_thread_run_inv:
  assumes "data_inv W dt" and "\<forall>c \<in> set cs. W + length c < 2 ^ 64"
    and "data_thread_run W dt cs = Inr (dt', outs)"
  shows "data_inv W dt' \<and> ring_buf (buffer dt') = lastn W (ring_buf (buffer dt) @ concat cs)"
  using data_thread_run_spec[OF assms(1) _ assms(2), of "ring_buf (buffer dt)"] assms(1,3)
  by (auto simp: data_inv_def ring_wf_def)

subsection \<open>Properties of the data thread\<close>

text \<open>C1. Started as the program starts it (a fresh ring of capacity \<open>W\<close>, counter 0) and given a resampler that honours its contract for one channel of \<open>W\<close> frames, the data thread never panics on any sequence of received chunks, and what it sends to the inference thread is exactly the resampled sequence of windows of the abstract specification: at each chunk that brings the count of fresh samples to \<open>W\<close>, the newest \<open>W\<close> samples received so far.\<close>

theorem data_thread_windows:
  assumes init: "data_thread_init W (Some rs) = Inr dt"
    and wf: "resampler_wf rs" and ch: "rs_channels rs = 1" and fin: "rs_frames_in rs = W"
    and nowrap: "\<forall>c \<in> set cs. W + length c < 2 ^ 64"
  shows "\<exists>dt'. data_thread_run W dt cs =
           Inr (dt', resample_windows (rs_kernel rs) (rs_state rs) (windows_spec W 0 [] cs))"
proof -
  have dt: "data_inv W dt" "ring_buf (buffer dt) = lastn W []" "sample_count dt = 0" "resampler dt = rs"
    using data_thread_init_inv[OF init wf ch fin] by simp_all
  from data_thread_run_spec[OF dt(1,2) nowrap] dt(3,4) show ?thesis by auto
qed


theorem data_thread_windows_witness:
  "data_thread_init 2 (Some \<lparr>rs_channels = 1, rs_frames_in = 2, rs_frames_out = 1, rs_state = (),
        rs_kernel = \<lambda>s (wave :: int list list). (s, map (take 1) wave)\<rparr>) =
     Inr \<lparr>buffer = \<lparr>ring_cap = 2, ring_buf = []\<rparr>, sample_count = 0,
          resampler = \<lparr>rs_channels = 1, rs_frames_in = 2, rs_frames_out = 1, rs_state = (),
                       rs_kernel = \<lambda>s (wave :: int list list). (s, map (take 1) wave)\<rparr>\<rparr> \<and>
   resampler_wf \<lparr>rs_channels = 1, rs_frames_in = 2, rs_frames_out = 1, rs_state = (),
        rs_kernel = \<lambda>s (wave :: int list list). (s, map (take 1) wave)\<rparr> \<and>
   (\<exists>dt'. data_thread_run 2 \<lparr>buffer = \<lparr>ring_cap = 2, ring_buf = []\<rparr>, sample_count = 0,
          resampler = \<lparr>rs_channels = 1, rs_frames_in = 2, rs_frames_out = 1, rs_state = (),
                       rs_kernel = \<lambda>s (wave :: int list list). (s, map (take 1) wave)\<rparr>\<rparr> [[1, 2, 3 :: int]] = Inr (dt', [[2]]))"
proof -
  let ?rs = "\<lparr>rs_channels = 1, rs_frames_in = 2, rs_frames_out = 1, rs_state = (),
        rs_kernel = \<lambda>s (wave :: int list list). (s, map (take 1) wave)\<rparr>"
  let ?dt = "\<lparr>buffer = \<lparr>ring_cap = 2, ring_buf = []\<rparr>, sample_count = 0, resampler = ?rs\<rparr>"
  have init: "data_thread_init 2 (Some ?rs) = Inr ?dt"
    by (simp add: data_thread_init_def ring_new_def)
  have wf: "resampler_wf ?rs" by (simp add: resampler_wf_def)
  have run: "\<exists>dt'. data_thread_run 2 ?dt [[1, 2, 3]] =
           Inr (dt', resample_windows (rs_kernel ?rs) (rs_state ?rs) (windows_spec 2 0 [] [[1, 2, 3]]))"
    by (rule data_thread_windows[OF init wf]) simp_all
  have ev: "resample_windows (rs_kernel ?rs) (rs_state ?rs) (windows_spec 2 0 [] [[1, 2, 3]]) = [[2]]"
    by (simp add: lastn_def)
  from init wf run show ?thesis unfolding ev by (intro conjI)
qed


text \<open>C2. Every iteration of the data thread keeps its invariant: over any run, the ring keeps
  capacity \<open>W\<close> and holds the newest \<open>W\<close> samples received, the counter stays below
  \<open>W\<close> and never exceeds the number of buffered samples, and the resampler keeps its
  shape.\<close>

theorem data_thread_keeps_inv:
  assumes "data_inv W dt" and "\<forall>c \<in> set cs. W + length c < 2 ^ 64"
    and "data_thread_run W dt cs = Inr (dt', outs)"
  shows "data_inv W dt' \<and> ring_to_vec (buffer dt') = lastn W (ring_to_vec (buffer dt) @ concat cs)"
  using data_thread_run_inv[OF assms] by (simp add: ring_to_vec_def)

theorem data_thread_keeps_inv_witness:
  "data_inv 2 \<lparr>buffer = \<lparr>ring_cap = 2, ring_buf = [1]\<rparr>, sample_count = 1, resampler = \<lparr>rs_channels = 1, rs_frames_in = 2, rs_frames_out = 1, rs_state = (),
                       rs_kernel = \<lambda>s (wave :: int list list). (s, map (take 1) wave)\<rparr>\<rparr> \<and>
   2 + length [5, 7 :: int] < 2 ^ 64 \<and>
   data_thread_run 2 \<lparr>buffer = \<lparr>ring_cap = 2, ring_buf = [1]\<rparr>, sample_count = 1, resampler = \<lparr>rs_channels = 1, rs_frames_in = 2, rs_frames_out = 1, rs_state = (),
                       rs_kernel = \<lambda>s (wave :: int list list). (s, map (take 1) wave)\<rparr>\<rparr> [[5, 7]] =
     Inr (\<lparr>buffer = \<lparr>ring_cap = 2, ring_buf = [5, 7]\<rparr>, sample_count = 0, resampler = \<lparr>rs_channels = 1, rs_frames_in = 2, rs_frames_out = 1, rs_state = (),
                       rs_kernel = \<lambda>s (wave :: int list list). (s, map (take 1) wave)\<rparr>\<rparr>, [[5]]) \<and>
   data_inv 2 \<lparr>buffer = \<lparr>ring_cap = 2, ring_buf = [5, 7]\<rparr>, sample_count = 0, resampler = \<lparr>rs_channels = 1, rs_frames_in = 2, rs_frames_out = 1, rs_state = (),
                       rs_kernel = \<lambda>s (wave :: int list list). (s, map (take 1) wave)\<rparr>\<rparr>"
proof -
  let ?dt = "\<lparr>buffer = \<lparr>ring_cap = 2, ring_buf = [1]\<rparr>, sample_count = 1, resampler = \<lparr>rs_channels = 1, rs_frames_in = 2, rs_frames_out = 1, rs_state = (),
                       rs_kernel = \<lambda>s (wave :: int list list). (s, map (take 1) wave)\<rparr>\<rparr>"
  let ?dt' = "\<lparr>buffer = \<lparr>ring_cap = 2, ring_buf = [5, 7]\<rparr>, sample_count = 0, resampler = \<lparr>rs_channels = 1, rs_frames_in = 2, rs_frames_out = 1, rs_state = (),
                       rs_kernel = \<lambda>s (wave :: int list list). (s, map (take 1) wave)\<rparr>\<rparr>"
  have inv: "data_inv 2 ?dt" by (simp add: data_inv_def ring_wf_def resampler_wf_def)
  have run: "data_thread_run 2 ?dt [[5, 7]] = Inr (?dt', [[5]])"
    by (simp add: data_thread_recv_def accumulate_def ring_push_def ring_to_vec_def
                  resampler_process_def model_evals)
  have "data_inv 2 ?dt'" using data_thread_keeps_inv[OF inv _ run] by simp
  with inv run show ?thesis by simp
qed

text \<open>C3. The \<open>usize\<close> counter \<open>sample_count\<close> never wraps: after every iteration it is below \<open>W\<close>; an iteration that emits nothing adds exactly the chunk length to it, and one that emits resets it to 0.\<close>

theorem data_thread_counter_bound:
  assumes inv: "data_inv W dt" and nowrap: "W + length samples < 2 ^ 64"
    and step: "data_thread_recv W alive dt samples = Inr (dt', out)"
  shows "unat (sample_count dt') < W \<and>
         (out = None \<longrightarrow> unat (sample_count dt') = unat (sample_count dt) + length samples) \<and>
         (out \<noteq> None \<longrightarrow> sample_count dt' = 0)"
proof (cases "W \<le> unat (sample_count dt) + length samples")
  case True
  then obtain s' w where k: "rs_kernel (resampler dt) (rs_state (resampler dt))
              [lastn W (ring_buf (buffer dt) @ samples)] = (s', [w])"
    using data_kernel_shape[OF inv] by blast
  have "sample_count dt' = 0 \<and> out \<noteq> None"
    using step k accumulate_eq[OF data_inv_facts(1,2,3)[OF inv] nowrap] True
      data_inv_facts(4,5,6)[OF inv]
    by (auto simp: data_thread_recv_def resampler_process_def split: if_splits)
  then show ?thesis using data_inv_facts(3)[OF data_inv_recv[OF inv nowrap step]] by auto
next
  case False
  then show ?thesis
    using data_thread_recv_quiet[OF inv nowrap False] step data_inv_facts(3)[OF inv] nowrap
    by (auto simp: unat_usize_add)
qed


theorem data_thread_counter_bound_witness:
  "data_inv 2 \<lparr>buffer = \<lparr>ring_cap = 2, ring_buf = [1]\<rparr>, sample_count = 1, resampler = \<lparr>rs_channels = 1, rs_frames_in = 2, rs_frames_out = 1, rs_state = (),
                       rs_kernel = \<lambda>s (wave :: int list list). (s, map (take 1) wave)\<rparr>\<rparr> \<and>
   2 + length [5::int, 7] < 2 ^ 64 \<and>
   data_thread_recv 2 True \<lparr>buffer = \<lparr>ring_cap = 2, ring_buf = [1]\<rparr>, sample_count = 1, resampler = \<lparr>rs_channels = 1, rs_frames_in = 2, rs_frames_out = 1, rs_state = (),
                       rs_kernel = \<lambda>s (wave :: int list list). (s, map (take 1) wave)\<rparr>\<rparr> [5, 7] =
     Inr (\<lparr>buffer = \<lparr>ring_cap = 2, ring_buf = [5, 7]\<rparr>, sample_count = 0, resampler = \<lparr>rs_channels = 1, rs_frames_in = 2, rs_frames_out = 1, rs_state = (),
                       rs_kernel = \<lambda>s (wave :: int list list). (s, map (take 1) wave)\<rparr>\<rparr>, Some [5]) \<and>
   unat (0 :: usize) < 2"
proof -
  let ?dt = "\<lparr>buffer = \<lparr>ring_cap = 2, ring_buf = [1]\<rparr>, sample_count = 1, resampler = \<lparr>rs_channels = 1, rs_frames_in = 2, rs_frames_out = 1, rs_state = (),
                       rs_kernel = \<lambda>s (wave :: int list list). (s, map (take 1) wave)\<rparr>\<rparr>"
  let ?dt' = "\<lparr>buffer = \<lparr>ring_cap = 2, ring_buf = [5, 7]\<rparr>, sample_count = 0, resampler = \<lparr>rs_channels = 1, rs_frames_in = 2, rs_frames_out = 1, rs_state = (),
                       rs_kernel = \<lambda>s (wave :: int list list). (s, map (take 1) wave)\<rparr>\<rparr>"
  have inv: "data_inv 2 ?dt" by (simp add: data_inv_def ring_wf_def resampler_wf_def)
  have step: "data_thread_recv 2 True ?dt [5, 7] = Inr (?dt', Some [5])"
    by (simp add: data_thread_recv_def accumulate_def ring_push_def ring_to_vec_def
                  resampler_process_def model_evals)
  have "unat (sample_count ?dt') < 2" using data_thread_counter_bound[OF inv _ step] by simp
  with inv step show ?thesis by simp
qed


text \<open>C4. The data thread emits at most one window per \<open>W\<close> samples: over any run, the number of windows sent times \<open>W\<close> is at most the pending count at the start plus the samples received.\<close>

theorem data_thread_window_count:
  assumes inv: "data_inv W dt" and nowrap: "\<forall>c \<in> set cs. W + length c < 2 ^ 64"
    and run: "data_thread_run W dt cs = Inr (dt', outs)"
  shows "length outs * W \<le> unat (sample_count dt) + sum_list (map length cs)"
proof -
  from data_thread_run_spec[OF inv _ nowrap, of "ring_buf (buffer dt)"] data_inv_facts(2)[OF inv]
  have "outs = resample_windows (rs_kernel (resampler dt)) (rs_state (resampler dt))
                 (windows_spec W (unat (sample_count dt)) (ring_buf (buffer dt)) cs)"
    using run inv by (auto simp: data_inv_def ring_wf_def)
  then show ?thesis by (simp add: windows_spec_count)
qed



theorem data_thread_window_count_witness:
  "data_inv 2 \<lparr>buffer = \<lparr>ring_cap = 2, ring_buf = []\<rparr>, sample_count = 0, resampler = \<lparr>rs_channels = 1, rs_frames_in = 2, rs_frames_out = 1, rs_state = (),
                       rs_kernel = \<lambda>s (wave :: int list list). (s, map (take 1) wave)\<rparr>\<rparr> \<and>
   2 + length [1, 2, 3 :: int] < 2 ^ 64 \<and>
   data_thread_run 2 \<lparr>buffer = \<lparr>ring_cap = 2, ring_buf = []\<rparr>, sample_count = 0, resampler = \<lparr>rs_channels = 1, rs_frames_in = 2, rs_frames_out = 1, rs_state = (),
                       rs_kernel = \<lambda>s (wave :: int list list). (s, map (take 1) wave)\<rparr>\<rparr> [[1, 2, 3]] =
     Inr (\<lparr>buffer = \<lparr>ring_cap = 2, ring_buf = [2, 3]\<rparr>, sample_count = 0, resampler = \<lparr>rs_channels = 1, rs_frames_in = 2, rs_frames_out = 1, rs_state = (),
                       rs_kernel = \<lambda>s (wave :: int list list). (s, map (take 1) wave)\<rparr>\<rparr>, [[2]]) \<and>
   length [[2 :: int]] * 2 \<le> unat (0 :: usize) + sum_list (map length [[1, 2, 3 :: int]])"
proof -
  let ?dt = "\<lparr>buffer = \<lparr>ring_cap = 2, ring_buf = []\<rparr>, sample_count = 0, resampler = \<lparr>rs_channels = 1, rs_frames_in = 2, rs_frames_out = 1, rs_state = (),
                       rs_kernel = \<lambda>s (wave :: int list list). (s, map (take 1) wave)\<rparr>\<rparr>"
  let ?dt' = "\<lparr>buffer = \<lparr>ring_cap = 2, ring_buf = [2, 3]\<rparr>, sample_count = 0, resampler = \<lparr>rs_channels = 1, rs_frames_in = 2, rs_frames_out = 1, rs_state = (),
                       rs_kernel = \<lambda>s (wave :: int list list). (s, map (take 1) wave)\<rparr>\<rparr>"
  have inv: "data_inv 2 ?dt" by (simp add: data_inv_def ring_wf_def resampler_wf_def)
  have run: "data_thread_run 2 ?dt [[1, 2, 3]] = Inr (?dt', [[2]])"
    by (simp add: data_thread_recv_def accumulate_def ring_push_def ring_to_vec_def
                  resampler_process_def model_evals)
  have "length [[2 :: int]] * 2 \<le> unat (sample_count ?dt) + sum_list (map length [[1, 2, 3 :: int]])"
    by (rule data_thread_window_count[OF inv _ run]) simp
  with inv run show ?thesis by simp
qed


text \<open>C5. When every chunk has the same length \<open>k\<close> and \<open>k\<close> divides \<open>W\<close>, starting from a zero counter the data thread emits exactly one window per \<open>W\<close> samples received (spec section 8 holds for aligned chunks).\<close>

theorem data_thread_aligned_count:
  assumes inv: "data_inv W dt" and sc0: "sample_count dt = 0"
    and len: "\<forall>c \<in> set cs. length c = k" and k: "0 < k" "k dvd W" and nowrap: "W + k < 2 ^ 64"
    and run: "data_thread_run W dt cs = Inr (dt', outs)"
  shows "length outs = sum_list (map length cs) div W"
proof -
  have nw: "\<forall>c \<in> set cs. W + length c < 2 ^ 64" using len nowrap by simp
  from data_thread_run_spec[OF inv _ nw, of "ring_buf (buffer dt)"] data_inv_facts(2)[OF inv]
  have "outs = resample_windows (rs_kernel (resampler dt)) (rs_state (resampler dt))
                 (windows_spec W 0 (ring_buf (buffer dt)) cs)"
    using run inv sc0 by (auto simp: data_inv_def ring_wf_def)
  moreover have "0 < W" using data_inv_facts(3)[OF inv] by simp
  ultimately show ?thesis using windows_spec_aligned[OF len k] by simp
qed


theorem data_thread_aligned_count_witness:
  "data_inv 2 \<lparr>buffer = \<lparr>ring_cap = 2, ring_buf = []\<rparr>, sample_count = 0, resampler = \<lparr>rs_channels = 1, rs_frames_in = 2, rs_frames_out = 1, rs_state = (),
                       rs_kernel = \<lambda>s (wave :: int list list). (s, map (take 1) wave)\<rparr>\<rparr> \<and>
   length [1 :: int] = 1 \<and> length [2 :: int] = 1 \<and> length [3 :: int] = 1 \<and>
   (0::nat) < 1 \<and> (1::nat) dvd 2 \<and>
   2 + 1 < (2::nat) ^ 64 \<and>
   data_thread_run 2 \<lparr>buffer = \<lparr>ring_cap = 2, ring_buf = []\<rparr>, sample_count = 0, resampler = \<lparr>rs_channels = 1, rs_frames_in = 2, rs_frames_out = 1, rs_state = (),
                       rs_kernel = \<lambda>s (wave :: int list list). (s, map (take 1) wave)\<rparr>\<rparr>
     [[1], [2], [3]] =
     Inr (\<lparr>buffer = \<lparr>ring_cap = 2, ring_buf = [2, 3]\<rparr>, sample_count = 1, resampler = \<lparr>rs_channels = 1, rs_frames_in = 2, rs_frames_out = 1, rs_state = (),
                       rs_kernel = \<lambda>s (wave :: int list list). (s, map (take 1) wave)\<rparr>\<rparr>, [[1]]) \<and>
   length [[1 :: int]] = sum_list (map length [[1], [2], [3 :: int]]) div 2"
proof -
  let ?dt = "\<lparr>buffer = \<lparr>ring_cap = 2, ring_buf = []\<rparr>, sample_count = 0, resampler = \<lparr>rs_channels = 1, rs_frames_in = 2, rs_frames_out = 1, rs_state = (),
                       rs_kernel = \<lambda>s (wave :: int list list). (s, map (take 1) wave)\<rparr>\<rparr>"
  let ?dt' = "\<lparr>buffer = \<lparr>ring_cap = 2, ring_buf = [2, 3]\<rparr>, sample_count = 1, resampler = \<lparr>rs_channels = 1, rs_frames_in = 2, rs_frames_out = 1, rs_state = (),
                       rs_kernel = \<lambda>s (wave :: int list list). (s, map (take 1) wave)\<rparr>\<rparr>"
  have inv: "data_inv 2 ?dt" by (simp add: data_inv_def ring_wf_def resampler_wf_def)
  have run: "data_thread_run 2 ?dt [[1], [2], [3]] = Inr (?dt', [[1]])"
    by (simp add: data_thread_recv_def accumulate_def ring_push_def ring_to_vec_def
                  resampler_process_def model_evals)
  have "length [[1 :: int]] = sum_list (map length [[1], [2], [3 :: int]]) div 2"
    by (rule data_thread_aligned_count[OF inv _ _ _ _ _ run, of 1]) simp_all
  with inv run show ?thesis by simp
qed


lemma windows_spec_pairs:
  "2 \<le> W \<Longrightarrow> length c = W - 1 \<Longrightarrow> length (windows_spec W 0 h (replicate (2 * n) c)) = n"
  by (induction n arbitrary: h) auto

lemma pairs_fewer_than_crossings:
  assumes "3 \<le> (W :: nat)" "W \<le> n"
  shows "n < 2 * n * (W - 1) div W"
proof -
  obtain k where k: "W = k + 3" using assms(1) by (metis add.commute le_Suc_ex)
  have "W \<le> n * (W - 2)" using assms(2) k by (simp add: algebra_simps)
  then have "Suc n * W \<le> 2 * n * (W - 1)" using k by (simp add: algebra_simps)
  then have "Suc n \<le> 2 * n * (W - 1) div W" using assms(1) by (simp add: less_eq_div_iff_mult_less_eq)
  then show ?thesis by simp
qed

text \<open>C6. Spec section 8 says exactly one window is emitted per crossing of a multiple of
  \<open>W\<close>; the code resets the counter to 0 and drops the overshoot. Chunks of \<open>W - 1\<close>
  samples show the gap for every \<open>W \<ge> 2\<close>: \<open>2n\<close> of them make the data thread emit
  exactly \<open>n\<close> windows, although they contain \<open>2n(W - 1) div W\<close> multiples of \<open>W\<close>, which is
  more than \<open>n\<close> as soon as \<open>W \<ge> 3\<close> and \<open>n \<ge> W\<close>.\<close>

theorem data_thread_skips_crossings:
  assumes init: "data_thread_init W (Some rs) = Inr dt"
    and rs: "resampler_wf rs" "rs_channels rs = 1" "rs_frames_in rs = W"
    and W: "2 \<le> W" "2 * W < 2 ^ 64" and c: "length c = W - 1"
  shows "(\<exists>dt' outs. data_thread_run W dt (replicate (2 * n) c) = Inr (dt', outs) \<and> length outs = n) \<and>
         sum_list (map length (replicate (2 * n) c)) div W = 2 * n * (W - 1) div W \<and>
         (3 \<le> W \<and> W \<le> n \<longrightarrow> n < sum_list (map length (replicate (2 * n) c)) div W)"
proof -
  have dt: "data_inv W dt" "ring_buf (buffer dt) = lastn W []" "resampler dt = rs" "sample_count dt = 0"
    using data_thread_init_inv[OF init rs] by simp_all
  have nw: "\<forall>c' \<in> set (replicate (2 * n) c). W + length c' < 2 ^ 64" using W c by auto
  from data_thread_run_spec[OF dt(1,2) nw] dt(3,4) obtain dt' where
    "data_thread_run W dt (replicate (2 * n) c) =
       Inr (dt', resample_windows (rs_kernel rs) (rs_state rs) (windows_spec W 0 [] (replicate (2 * n) c)))"
    by auto
  moreover have "length (windows_spec W 0 [] (replicate (2 * n) c)) = n" by (rule windows_spec_pairs[OF W(1) c])
  moreover have s: "sum_list (map length (replicate (2 * n) c)) = 2 * n * (W - 1)"
    using c by (simp add: sum_list_replicate)
  ultimately show ?thesis using pairs_fewer_than_crossings by auto
qed

theorem data_thread_skips_crossings_witness:
  "data_thread_init 4 (Some \<lparr>rs_channels = 1, rs_frames_in = 4, rs_frames_out = 1, rs_state = (),
        rs_kernel = \<lambda>s (wave :: int list list). (s, map (take 1) wave)\<rparr>) =
     Inr \<lparr>buffer = \<lparr>ring_cap = 4, ring_buf = []\<rparr>, sample_count = 0,
          resampler = \<lparr>rs_channels = 1, rs_frames_in = 4, rs_frames_out = 1, rs_state = (),
                       rs_kernel = \<lambda>s (wave :: int list list). (s, map (take 1) wave)\<rparr>\<rparr> \<and>
   resampler_wf \<lparr>rs_channels = 1, rs_frames_in = 4, rs_frames_out = 1, rs_state = (),
        rs_kernel = \<lambda>s (wave :: int list list). (s, map (take 1) wave)\<rparr> \<and>
   (\<exists>dt' outs. data_thread_run 4 \<lparr>buffer = \<lparr>ring_cap = 4, ring_buf = []\<rparr>, sample_count = 0,
          resampler = \<lparr>rs_channels = 1, rs_frames_in = 4, rs_frames_out = 1, rs_state = (),
                       rs_kernel = \<lambda>s (wave :: int list list). (s, map (take 1) wave)\<rparr>\<rparr>
        (replicate 8 [1, 1, 1]) = Inr (dt', outs) \<and> length outs = 4) \<and>
   sum_list (map length (replicate 8 [1, 1, 1 :: int])) div 4 = 6"
proof -
  let ?rs = "\<lparr>rs_channels = 1, rs_frames_in = 4, rs_frames_out = 1, rs_state = (),
        rs_kernel = \<lambda>s (wave :: int list list). (s, map (take 1) wave)\<rparr>"
  let ?dt = "\<lparr>buffer = \<lparr>ring_cap = 4, ring_buf = []\<rparr>, sample_count = 0, resampler = ?rs\<rparr>"
  have init: "data_thread_init 4 (Some ?rs) = Inr ?dt" by (simp add: data_thread_init_def ring_new_def)
  have wf: "resampler_wf ?rs" by (simp add: resampler_wf_def)
  from data_thread_skips_crossings[OF init wf, of "[1, 1, 1]" 4] init wf show ?thesis
    by simp
qed

text \<open>C15. Error path of line 184: the data thread relies on the resampler taking one
  channel of exactly \<open>W\<close> frames. With any other resampler it keeps counting and
  pushing chunks while the counter stays below \<open>W\<close>, and the first chunk that brings
  the counter to \<open>W\<close> makes \<open>resampler.process(..).unwrap()\<close> panic with the channel error
  if there is not one channel, and otherwise with the frame error naming the
  window's \<open>W\<close> frames and the resampler's expected count.\<close>

theorem data_thread_misshaped_resampler:
  assumes ring: "ring_wf (buffer dt)" "ring_cap (buffer dt) = W"
    and sc: "unat (sample_count dt) < W" "unat (sample_count dt) \<le> length (ring_buf (buffer dt))"
    and bad: "\<not> (rs_channels (resampler dt) = 1 \<and> rs_frames_in (resampler dt) = W)"
    and nowrap: "W + length c < 2 ^ 64"
  shows "data_thread_recv W alive dt c =
           (if W \<le> unat (sample_count dt) + length c
            then Inl (ResampleFailed
                   (if rs_channels (resampler dt) \<noteq> 1
                    then WrongNumberOfChannels 1 (rs_channels (resampler dt))
                    else WrongNumberOfFrames W (rs_frames_in (resampler dt))))
            else Inr (dt\<lparr>buffer := push_samples c (buffer dt),
                         sample_count := sample_count dt + of_nat (length c)\<rparr>, None))"
proof (cases "W \<le> unat (sample_count dt) + length c")
  case True
  then have "length (lastn W (ring_buf (buffer dt) @ c)) = W" using sc(2) by simp
  moreover have "rs_channels (resampler dt) = 1 \<Longrightarrow> rs_frames_in (resampler dt) \<noteq> W"
    using bad by blast
  ultimately show ?thesis
    using accumulate_eq[OF ring sc(1) nowrap] True
    by (cases "rs_channels (resampler dt) = 1")
       (simp_all add: data_thread_recv_def resampler_process_one_channel)
next
  case False
  then show ?thesis
    using accumulate_eq[OF ring sc(1) nowrap] by (simp add: data_thread_recv_def)
qed

theorem data_thread_misshaped_resampler_witness:
  "data_thread_recv 2 True
     \<lparr>buffer = \<lparr>ring_cap = 2, ring_buf = []\<rparr>, sample_count = 0,
      resampler = \<lparr>rs_channels = 1, rs_frames_in = 3, rs_frames_out = 1, rs_state = (),
                   rs_kernel = \<lambda>s (w :: rat list list). (s, w)\<rparr>\<rparr> [1, 2] =
   Inl (ResampleFailed (WrongNumberOfFrames 2 3))"
proof -
  let ?dt = "\<lparr>buffer = \<lparr>ring_cap = 2, ring_buf = []\<rparr>, sample_count = 0,
      resampler = \<lparr>rs_channels = 1, rs_frames_in = 3, rs_frames_out = 1, rs_state = (),
                   rs_kernel = \<lambda>s (w :: rat list list). (s, w)\<rparr>\<rparr>"
  have "ring_wf (buffer ?dt)" by (simp add: ring_wf_def)
  from data_thread_misshaped_resampler[OF this, where W = 2 and alive = True and c = "[1, 2]"]
  show ?thesis by simp
qed

end
