(* ===== verification/Dispatcher.thy ===== *)
theory Dispatcher
  imports Config
begin

text \<open>
  The Inference Dispatcher: the inference thread of \<open>src/src/main.rs\<close> (lines 77--157).
  It opens the optional log file and loads the model (lines 78--92), then for every
  resampled window received (lines 94--156) runs the model, walks the segments in order,
  appends one line per segment to the log when there is one, concatenates the segment
  texts, and runs the kill pipeline when the lower-cased text contains the lower-cased
  code phrase. The speech model is the black box \<open>model\<close>: it maps a window to the
  outcome of \<open>create_state\<close>, \<open>full\<close> and \<open>full_n_segments\<close>, and each segment carries the
  results of \<open>full_get_segment_text\<close>, \<open>_t0\<close> and \<open>_t1\<close> (\<open>None\<close> for an \<open>Err\<close>).
  Lower-casing is Rust's \<open>to_lowercase\<close> restricted to ASCII (Isabelle characters are
  bytes); \<open>str_contains\<close> is \<open>str::contains\<close> as a naive search.
\<close>

subsection \<open>Strings\<close>

definition lower_char :: "char \<Rightarrow> char" where
  "lower_char c = (let n = of_char c :: nat in if 65 \<le> n \<and> n \<le> 90 then char_of (n + 32) else c)"

definition to_lowercase :: "string \<Rightarrow> string" where
  "to_lowercase s = map lower_char s"

fun starts_with :: "'a list \<Rightarrow> 'a list \<Rightarrow> bool" where
  "starts_with _ [] = True"
| "starts_with [] (_ # _) = False"
| "starts_with (x # xs) (y # ys) = (x = y \<and> starts_with xs ys)"

fun str_contains :: "'a list \<Rightarrow> 'a list \<Rightarrow> bool" where
  "str_contains [] pat = (pat = [])"
| "str_contains (h # t) pat = (starts_with (h # t) pat \<or> str_contains t pat)"

text \<open>The trigger test, lines 140--143.\<close>

definition code_phrase_matches :: "string \<Rightarrow> string \<Rightarrow> bool" where
  "code_phrase_matches transcription_chunk phrase =
     str_contains (to_lowercase transcription_chunk) (to_lowercase phrase)"

subsection \<open>Decimal formatting of \<open>i64\<close> (\<open>Display\<close>)\<close>

fun digits_of_nat :: "nat \<Rightarrow> string" where
  "digits_of_nat n =
     (if n < 10 then [char_of (48 + n)] else digits_of_nat (n div 10) @ [char_of (48 + n mod 10)])"

definition int_to_string :: "int \<Rightarrow> string" where
  "int_to_string i = (if i < 0 then CHR ''-'' # digits_of_nat (nat (- i)) else digits_of_nat (nat i))"

text \<open>A reader of the log: the decimal parser the printed numbers are meant for.\<close>

definition digit_value :: "char \<Rightarrow> nat" where
  "digit_value c = of_char c - 48"

definition nat_of_digits :: "string \<Rightarrow> nat" where
  "nat_of_digits ds = foldl (\<lambda>n c. 10 * n + digit_value c) 0 ds"

definition int_of_string :: "string \<Rightarrow> int" where
  "int_of_string s =
     (if s \<noteq> [] \<and> hd s = CHR ''-'' then - int (nat_of_digits (tl s)) else int (nat_of_digits s))"

subsection \<open>The model's interface and the log file\<close>

record segment =
  seg_text :: "string option"
  seg_t0 :: "int option"
  seg_t1 :: "int option"

datatype whisper_outcome =
    CreateStateFailed       \<comment> \<open>\<open>whisper_ctx.create_state()\<close> returned \<open>Err\<close>\<close>
  | RunFailed               \<comment> \<open>\<open>state.full(..)\<close> returned \<open>Err\<close>\<close>
  | NSegmentsFailed         \<comment> \<open>\<open>state.full_n_segments()\<close> returned \<open>Err\<close>\<close>
  | Segments "segment list"

text \<open>
  A line as \<open>writeln!(file, "[{:?} | {} - {}]: {}", now, t0, t1, segment)\<close> writes it
  (lines 126--134), without its newline; \<open>ll_time\<close> is the \<open>Debug\<close> text of
  \<open>chrono::offset::Utc::now()\<close>, which the environment supplies.
\<close>

record log_line =
  ll_time :: string
  ll_t0 :: int
  ll_t1 :: int
  ll_text :: string

definition format_log_line :: "log_line \<Rightarrow> string" where
  "format_log_line l =
     ''['' @ ll_time l @ '' | '' @ int_to_string (ll_t0 l) @ '' - '' @ int_to_string (ll_t1 l) @
     '']: '' @ ll_text l"

text \<open>A reader of the log: splits a line at the separators \<open>format_log_line\<close> writes.\<close>

definition parse_log_line :: "string \<Rightarrow> log_line" where
  "parse_log_line s =
     (let rest = tl s;
          time = butlast (takeWhile (\<lambda>c. c \<noteq> CHR ''|'') rest);
          r1 = drop 2 (dropWhile (\<lambda>c. c \<noteq> CHR ''|'') rest);
          t0 = takeWhile (\<lambda>c. c \<noteq> CHR '' '') r1;
          r2 = drop 3 (dropWhile (\<lambda>c. c \<noteq> CHR '' '') r1);
          t1 = takeWhile (\<lambda>c. c \<noteq> CHR '']'') r2;
          text = drop 3 (dropWhile (\<lambda>c. c \<noteq> CHR '']'') r2)
      in \<lparr>ll_time = time, ll_t0 = int_of_string t0, ll_t1 = int_of_string t1, ll_text = text\<rparr>)"

record log_file =
  log_lines :: "string list"
  log_writable :: bool

datatype inference_panic =
    LogOpenFailed          \<comment> \<open>\<open>OpenOptions::open(..).unwrap()\<close>, line 86\<close>
  | ModelLoadFailed        \<comment> \<open>\<open>"failed to load model"\<close>, line 92\<close>
  | FailedCreateState      \<comment> \<open>line 103\<close>
  | FailedRunModel         \<comment> \<open>line 106\<close>
  | FailedNSegments        \<comment> \<open>line 111\<close>
  | FailedGetSegment       \<comment> \<open>line 116\<close>
  | FailedSegmentT0        \<comment> \<open>line 121\<close>
  | FailedSegmentT1        \<comment> \<open>line 124\<close>
  | LogWriteFailed         \<comment> \<open>\<open>writeln!(..).unwrap()\<close>, line 134\<close>

record disp_state =
  disp_log :: "log_file option"
  disp_kills :: nat
  disp_stderr :: "string list"

subsection \<open>The inference thread\<close>

text \<open>Set-up, lines 78--92: the log file is opened for appending (its old lines are kept),
  then the model is loaded.\<close>

definition inference_thread_init :: "opt \<Rightarrow> bool \<Rightarrow> string list \<Rightarrow> bool \<Rightarrow> inference_panic + disp_state" where
  "inference_thread_init o' open_ok old_lines model_ok =
     (case out_file o' of
        None \<Rightarrow> if model_ok then Inr \<lparr>disp_log = None, disp_kills = 0, disp_stderr = []\<rparr>
                else Inl ModelLoadFailed
      | Some _ \<Rightarrow>
          if \<not> open_ok then Inl LogOpenFailed
          else if model_ok
          then Inr \<lparr>disp_log = Some \<lparr>log_lines = old_lines, log_writable = True\<rparr>,
                    disp_kills = 0, disp_stderr = []\<rparr>
          else Inl ModelLoadFailed)"

text \<open>The loop over the segments, lines 113--138: \<open>clock k\<close> is the time read when the
  log holds \<open>k\<close> lines.\<close>

fun segment_loop ::
  "(nat \<Rightarrow> string) \<Rightarrow> log_file option \<Rightarrow> string \<Rightarrow> segment list \<Rightarrow>
   inference_panic + log_file option \<times> string" where
  "segment_loop clock lf chunk [] = Inr (lf, chunk)"
| "segment_loop clock lf chunk (s # ss) =
     (case seg_text s of
        None \<Rightarrow> Inl FailedGetSegment
      | Some text \<Rightarrow>
          (case lf of
             None \<Rightarrow> segment_loop clock None (chunk @ text) ss
           | Some f \<Rightarrow>
               (case seg_t0 s of
                  None \<Rightarrow> Inl FailedSegmentT0
                | Some t0 \<Rightarrow>
                    (case seg_t1 s of
                       None \<Rightarrow> Inl FailedSegmentT1
                     | Some t1 \<Rightarrow>
                         if log_writable f
                         then segment_loop clock
                                (Some (f\<lparr>log_lines := log_lines f @
                                  [format_log_line \<lparr>ll_time = clock (length (log_lines f)),
                                     ll_t0 = t0, ll_t1 = t1, ll_text = text\<rparr>]\<rparr>))
                                (chunk @ text) ss
                         else Inl LogWriteFailed))))"

text \<open>
  The kill pipeline \<open>ps aux | grep -ie " vi" | tr -s ' ' | cut -d ' ' -f 2 | xargs kill -9\<close>
  (lines 146--154) as an action of the environment: \<open>pipe_ok\<close> says whether \<open>pipe\<close>
  returned \<open>Ok\<close>; an error is printed to standard error and the thread goes on.
\<close>

definition run_kill_pipeline :: "bool \<Rightarrow> disp_state \<Rightarrow> disp_state" where
  "run_kill_pipeline pipe_ok st =
     (if pipe_ok then st\<lparr>disp_kills := Suc (disp_kills st)\<rparr>
      else st\<lparr>disp_stderr := disp_stderr st @ [''Shell Command error'']\<rparr>)"

text \<open>One iteration of \<open>while let Ok(audio) = inference_rx.recv()\<close>, lines 94--156.\<close>

definition process_window ::
  "('a list \<Rightarrow> whisper_outcome) \<Rightarrow> string \<Rightarrow> (nat \<Rightarrow> string) \<Rightarrow> bool \<Rightarrow>
   disp_state \<Rightarrow> 'a list \<Rightarrow> inference_panic + disp_state" where
  "process_window model phrase clock pipe_ok st audio =
     (case model audio of
        CreateStateFailed \<Rightarrow> Inl FailedCreateState
      | RunFailed \<Rightarrow> Inl FailedRunModel
      | NSegmentsFailed \<Rightarrow> Inl FailedNSegments
      | Segments segs \<Rightarrow>
          (case segment_loop clock (disp_log st) [] segs of
             Inl e \<Rightarrow> Inl e
           | Inr (lf, transcription_chunk) \<Rightarrow>
               (let st' = st\<lparr>disp_log := lf\<rparr>
                in Inr (if code_phrase_matches transcription_chunk phrase
                        then run_kill_pipeline pipe_ok st' else st'))))"

text \<open>The loop over the windows received before the channel closes.\<close>

fun inference_run ::
  "('a list \<Rightarrow> whisper_outcome) \<Rightarrow> string \<Rightarrow> (nat \<Rightarrow> string) \<Rightarrow> bool \<Rightarrow>
   disp_state \<Rightarrow> 'a list list \<Rightarrow> inference_panic + disp_state" where
  "inference_run model phrase clock pipe_ok st [] = Inr st"
| "inference_run model phrase clock pipe_ok st (w # ws) =
     (case process_window model phrase clock pipe_ok st w of
        Inl e \<Rightarrow> Inl e
      | Inr st' \<Rightarrow> inference_run model phrase clock pipe_ok st' ws)"

subsection \<open>The lines the log format prescribes\<close>

text \<open>The lines spec section 6 prescribes for a list of segments when the log holds
  \<open>n\<close> lines: one per segment, in order, or \<open>None\<close> when a segment lacks a field.\<close>

fun seg_lines :: "(nat \<Rightarrow> string) \<Rightarrow> nat \<Rightarrow> segment list \<Rightarrow> string list option" where
  "seg_lines clock n [] = Some []"
| "seg_lines clock n (s # ss) =
     (case (seg_text s, seg_t0 s, seg_t1 s) of
        (Some x, Some a, Some b) \<Rightarrow>
          map_option (Cons (format_log_line \<lparr>ll_time = clock n, ll_t0 = a, ll_t1 = b, ll_text = x\<rparr>))
            (seg_lines clock (Suc n) ss)
      | _ \<Rightarrow> None)"

subsection \<open>Lemmas\<close>

lemma starts_with_prefix: "starts_with xs p \<longleftrightarrow> prefix p xs"
  by (induction xs p rule: starts_with.induct) auto

lemma str_contains_sublist: "str_contains hay pat \<longleftrightarrow> sublist pat hay"
  by (induction hay) (auto simp: starts_with_prefix sublist_Cons_right)

lemma code_phrase_matches_sublist:
  "code_phrase_matches c p \<longleftrightarrow> sublist (to_lowercase p) (to_lowercase c)"
  by (simp add: code_phrase_matches_def str_contains_sublist)

lemma to_lowercase_append [simp]: "to_lowercase (a @ b) = to_lowercase a @ to_lowercase b"
  by (simp add: to_lowercase_def)

lemma segment_loop_nolog:
  "segment_loop clock None chunk segs =
     (case those (map seg_text segs) of None \<Rightarrow> Inl FailedGetSegment
      | Some texts \<Rightarrow> Inr (None, chunk @ concat texts))"
  by (induction segs arbitrary: chunk) (auto split: option.splits)

lemma segment_loop_log_Inr:
  "segment_loop clock (Some f) chunk segs = Inr (lf', chunk') \<Longrightarrow>
     \<exists>ls texts. seg_lines clock (length (log_lines f)) segs = Some ls \<and> length ls = length segs \<and>
        those (map seg_text segs) = Some texts \<and>
        lf' = Some (f\<lparr>log_lines := log_lines f @ ls\<rparr>) \<and> chunk' = chunk @ concat texts"
proof (induction segs arbitrary: f chunk)
  case Nil
  then show ?case by simp
next
  case (Cons s ss)
  then obtain x a b where s: "seg_text s = Some x" "seg_t0 s = Some a" "seg_t1 s = Some b"
    and w: "log_writable f"
    by (auto split: option.splits if_splits)
  let ?l = "format_log_line \<lparr>ll_time = clock (length (log_lines f)), ll_t0 = a, ll_t1 = b, ll_text = x\<rparr>"
  let ?f = "f\<lparr>log_lines := log_lines f @ [?l]\<rparr>"
  have "segment_loop clock (Some ?f) (chunk @ x) ss = Inr (lf', chunk')"
    using Cons.prems s w by simp
  from Cons.IH[OF this] obtain ls texts where
    "seg_lines clock (Suc (length (log_lines f))) ss = Some ls" "length ls = length ss"
    "those (map seg_text ss) = Some texts"
    "lf' = Some (?f\<lparr>log_lines := log_lines ?f @ ls\<rparr>)" "chunk' = chunk @ x @ concat texts"
    by auto
  with s show ?case by auto
qed

lemma segment_loop_log_ok:
  assumes "log_writable f" and "seg_lines clock (length (log_lines f)) segs = Some ls"
  shows "\<exists>texts. those (map seg_text segs) = Some texts \<and>
           segment_loop clock (Some f) chunk segs = Inr (Some (f\<lparr>log_lines := log_lines f @ ls\<rparr>), chunk @ concat texts)"
  using assms
proof (induction segs arbitrary: f chunk ls)
  case (Cons s ss)
  then obtain x a b ls' where s: "seg_text s = Some x" "seg_t0 s = Some a" "seg_t1 s = Some b"
    and ls: "seg_lines clock (Suc (length (log_lines f))) ss = Some ls'"
    and ls_eq: "ls = format_log_line \<lparr>ll_time = clock (length (log_lines f)), ll_t0 = a, ll_t1 = b, ll_text = x\<rparr> # ls'"
    by (auto split: option.splits)
  let ?f = "f\<lparr>log_lines := log_lines f @ [hd ls]\<rparr>"
  have "log_writable ?f" "seg_lines clock (length (log_lines ?f)) ss = Some ls'"
    using Cons.prems(1) ls by simp_all
  from Cons.IH[OF this, of "chunk @ x"] obtain texts where
    "those (map seg_text ss) = Some texts"
    "segment_loop clock (Some ?f) (chunk @ x) ss = Inr (Some (?f\<lparr>log_lines := log_lines ?f @ ls'\<rparr>), (chunk @ x) @ concat texts)"
    by blast
  with s Cons.prems(1) ls_eq show ?case by simp
qed simp

lemma process_window_segments:
  assumes "model audio = Segments segs" and "segment_loop clock (disp_log st) [] segs = Inr (lf, c)"
  shows "process_window model phrase clock ok st audio =
           Inr (if code_phrase_matches c phrase then run_kill_pipeline ok (st\<lparr>disp_log := lf\<rparr>)
                else st\<lparr>disp_log := lf\<rparr>)"
  using assms by (simp add: process_window_def)

text \<open>C14. When there is no log file and every segment has its text, processing a window runs the kill pipeline exactly when the lower-cased concatenation of the segment texts contains the lower-cased code phrase as a substring, and changes nothing else (spec section 8: "The Octopus Has Escaped now" matches the default phrase).\<close>

theorem process_window_trigger:
  assumes "disp_log st = None" and "model audio = Segments segs"
    and "those (map seg_text segs) = Some texts"
  shows "process_window model phrase clock True st audio =
           Inr (st\<lparr>disp_kills :=
                   (if sublist (to_lowercase phrase) (to_lowercase (concat texts))
                    then Suc (disp_kills st) else disp_kills st)\<rparr>)"
proof -
  have "segment_loop clock (disp_log st) [] segs = Inr (None, concat texts)"
    using assms(1,3) by (simp add: segment_loop_nolog)
  from process_window_segments[where model = model and audio = audio, OF assms(2) this] assms(1)
  show ?thesis
    by (simp add: code_phrase_matches_sublist run_kill_pipeline_def)
qed

theorem process_window_trigger_witness:
  "disp_log \<lparr>disp_log = None, disp_kills = 0, disp_stderr = []\<rparr> = None \<and>
   those (map seg_text [\<lparr>seg_text = Some '' The Octopus'', seg_t0 = Some 0, seg_t1 = Some 150\<rparr>,
               \<lparr>seg_text = Some '' Has Escaped now'', seg_t0 = Some 150, seg_t1 = Some 300\<rparr>]) =
     Some ['' The Octopus'', '' Has Escaped now''] \<and>
   process_window (\<lambda>_ :: int list. Segments [\<lparr>seg_text = Some '' The Octopus'', seg_t0 = Some 0, seg_t1 = Some 150\<rparr>,
                      \<lparr>seg_text = Some '' Has Escaped now'', seg_t0 = Some 150, seg_t1 = Some 300\<rparr>])
     (code_phrase default_opt) (\<lambda>_. []) True \<lparr>disp_log = None, disp_kills = 0, disp_stderr = []\<rparr> [] =
     Inr \<lparr>disp_log = None, disp_kills = 1, disp_stderr = []\<rparr>"
proof -
  let ?segs = "[\<lparr>seg_text = Some '' The Octopus'', seg_t0 = Some 0, seg_t1 = Some 150\<rparr>,
                \<lparr>seg_text = Some '' Has Escaped now'', seg_t0 = Some 150, seg_t1 = Some 300\<rparr>]"
  let ?st = "\<lparr>disp_log = None, disp_kills = 0, disp_stderr = []\<rparr>"
  have th: "those (map seg_text ?segs) = Some ['' The Octopus'', '' Has Escaped now'']" by simp
  have m: "sublist (to_lowercase (code_phrase default_opt))
             (to_lowercase (concat ['' The Octopus'', '' Has Escaped now'']))"
    using code_phrase_matches_sublist[of "'' The Octopus Has Escaped now''" "code_phrase default_opt"]
    by (simp add: default_opt_def code_phrase_matches_def to_lowercase_def lower_char_def model_evals)
  have "process_window (\<lambda>_ :: int list. Segments ?segs) (code_phrase default_opt) (\<lambda>_. []) True ?st [] =
          Inr (?st\<lparr>disp_kills := (if sublist (to_lowercase (code_phrase default_opt))
                      (to_lowercase (concat ['' The Octopus'', '' Has Escaped now''])) then Suc 0 else 0)\<rparr>)"
    using process_window_trigger[of ?st "\<lambda>_ :: int list. Segments ?segs" "[]" ?segs, OF _ _ th] by simp
  with m th show ?thesis by simp
qed

text \<open>The trigger is a substring test, not equality: text that matches still matches with any text around it.\<close>

theorem code_phrase_matches_surrounded:
  "code_phrase_matches t phrase \<Longrightarrow> code_phrase_matches (pre @ t @ post) phrase"
proof -
  assume "code_phrase_matches t phrase"
  then obtain ps ss where t: "to_lowercase t = ps @ to_lowercase phrase @ ss"
    by (auto simp: code_phrase_matches_sublist sublist_def)
  have "to_lowercase (pre @ t @ post) = (to_lowercase pre @ ps) @ to_lowercase phrase @ (ss @ to_lowercase post)"
    using t by simp
  then show ?thesis unfolding code_phrase_matches_sublist sublist_def by blast
qed

theorem code_phrase_matches_surrounded_witness:
  "code_phrase_matches ''The Octopus has escaped'' ''the octopus HAS escaped'' \<and>
   code_phrase_matches (''Help, '' @ ''The Octopus has escaped'' @ ''!'') ''the octopus HAS escaped''"
proof -
  have m: "code_phrase_matches ''The Octopus has escaped'' ''the octopus HAS escaped''"
    by (simp add: code_phrase_matches_def to_lowercase_def lower_char_def model_evals)
  with code_phrase_matches_surrounded[OF m, of "''Help, ''" "''!''"] show ?thesis by simp
qed

lemma code_phrase_matches_Nil [simp]: "code_phrase_matches c []"
  by (simp add: code_phrase_matches_sublist to_lowercase_def)

lemma process_window_Inr:
  "process_window model phrase clock ok st audio = Inr st' \<Longrightarrow>
     \<exists>segs lf c. model audio = Segments segs \<and> segment_loop clock (disp_log st) [] segs = Inr (lf, c) \<and>
       st' = (if code_phrase_matches c phrase then run_kill_pipeline ok (st\<lparr>disp_log := lf\<rparr>)
              else st\<lparr>disp_log := lf\<rparr>)"
proof -
  assume h: "process_window model phrase clock ok st audio = Inr st'"
  then obtain segs where m: "model audio = Segments segs"
    by (cases "model audio") (auto simp: process_window_def)
  with h obtain lf c where sl: "segment_loop clock (disp_log st) [] segs = Inr (lf, c)"
    by (cases "segment_loop clock (disp_log st) [] segs") (auto simp: process_window_def)
  with h m have "st' = (if code_phrase_matches c phrase then run_kill_pipeline ok (st\<lparr>disp_log := lf\<rparr>)
              else st\<lparr>disp_log := lf\<rparr>)"
    by (simp add: process_window_def Let_def)
  with m sl show ?thesis by blast
qed

text \<open>C16. With an empty code phrase every window the thread processes runs the kill pipeline, whatever was said.\<close>

theorem process_window_empty_phrase:
  "process_window model [] clock True st audio = Inr st' \<Longrightarrow> disp_kills st' = Suc (disp_kills st)"
  by (auto simp: run_kill_pipeline_def dest!: process_window_Inr)

theorem process_window_empty_phrase_witness:
  "process_window (\<lambda>_ :: int list. Segments [\<lparr>seg_text = Some '' hello'', seg_t0 = Some 0, seg_t1 = Some 10\<rparr>])
     [] (\<lambda>_. []) True \<lparr>disp_log = None, disp_kills = 0, disp_stderr = []\<rparr> [] =
     Inr \<lparr>disp_log = None, disp_kills = 1, disp_stderr = []\<rparr> \<and>
   disp_kills \<lparr>disp_log = None, disp_kills = 1, disp_stderr = []\<rparr> =
     Suc (disp_kills \<lparr>disp_log = None, disp_kills = 0, disp_stderr = []\<rparr>)"
proof -
  have r: "process_window (\<lambda>_ :: int list. Segments [\<lparr>seg_text = Some '' hello'', seg_t0 = Some 0, seg_t1 = Some 10\<rparr>])
     [] (\<lambda>_. []) True \<lparr>disp_log = None, disp_kills = 0, disp_stderr = []\<rparr> [] =
     Inr \<lparr>disp_log = None, disp_kills = 1, disp_stderr = []\<rparr>"
    by (simp add: process_window_def run_kill_pipeline_def)
  from process_window_empty_phrase[OF r] r show ?thesis by simp
qed

lemma run_kill_pipeline_log [simp]: "disp_log (run_kill_pipeline ok st) = disp_log st"
  by (simp add: run_kill_pipeline_def)

text \<open>C17. With a log file, a processed window appends exactly one line per segment, in segment order, each formatted as "[time | t0 - t1]: text", after the lines already in the file.\<close>

theorem process_window_logs_segments:
  assumes "model audio = Segments segs" and "disp_log st = Some f"
    and "process_window model phrase clock ok st audio = Inr st'"
  shows "\<exists>ls. seg_lines clock (length (log_lines f)) segs = Some ls \<and> length ls = length segs \<and>
           disp_log st' = Some (f\<lparr>log_lines := log_lines f @ ls\<rparr>)"
  using process_window_Inr[OF assms(3)] assms(1,2)
  by (auto dest!: segment_loop_log_Inr)

theorem process_window_logs_segments_witness:
  "(\<lambda>_ :: int list. Segments [\<lparr>seg_text = Some '' hi'', seg_t0 = Some 0, seg_t1 = Some 10\<rparr>,
                               \<lparr>seg_text = Some '' there'', seg_t0 = Some 10, seg_t1 = Some 20\<rparr>]) [] =
     Segments [\<lparr>seg_text = Some '' hi'', seg_t0 = Some 0, seg_t1 = Some 10\<rparr>,
               \<lparr>seg_text = Some '' there'', seg_t0 = Some 10, seg_t1 = Some 20\<rparr>] \<and>
   disp_log \<lparr>disp_log = Some \<lparr>log_lines = [''old''], log_writable = True\<rparr>, disp_kills = 0, disp_stderr = []\<rparr> =
     Some \<lparr>log_lines = [''old''], log_writable = True\<rparr> \<and>
   process_window (\<lambda>_ :: int list. Segments [\<lparr>seg_text = Some '' hi'', seg_t0 = Some 0, seg_t1 = Some 10\<rparr>,
                               \<lparr>seg_text = Some '' there'', seg_t0 = Some 10, seg_t1 = Some 20\<rparr>])
     ''octopus'' (\<lambda>_. ''T'') True
     \<lparr>disp_log = Some \<lparr>log_lines = [''old''], log_writable = True\<rparr>, disp_kills = 0, disp_stderr = []\<rparr> [] =
     Inr \<lparr>disp_log = Some \<lparr>log_lines = [''old'', ''[T | 0 - 10]:  hi'', ''[T | 10 - 20]:  there''],
                            log_writable = True\<rparr>, disp_kills = 0, disp_stderr = []\<rparr> \<and>
   length [''[T | 0 - 10]:  hi'', ''[T | 10 - 20]:  there''] = 2"
proof -
  let ?segs = "[\<lparr>seg_text = Some '' hi'', seg_t0 = Some 0, seg_t1 = Some 10\<rparr>,
                \<lparr>seg_text = Some '' there'', seg_t0 = Some 10, seg_t1 = Some 20\<rparr>]"
  let ?f = "\<lparr>log_lines = [''old''], log_writable = True\<rparr>"
  let ?st = "\<lparr>disp_log = Some ?f, disp_kills = 0, disp_stderr = []\<rparr>"
  have r: "process_window (\<lambda>_ :: int list. Segments ?segs) ''octopus'' (\<lambda>_. ''T'') True ?st [] =
     Inr \<lparr>disp_log = Some \<lparr>log_lines = [''old'', ''[T | 0 - 10]:  hi'', ''[T | 10 - 20]:  there''],
                            log_writable = True\<rparr>, disp_kills = 0, disp_stderr = []\<rparr>"
    by (simp add: process_window_def format_log_line_def int_to_string_def code_phrase_matches_def
                  to_lowercase_def lower_char_def model_evals)
  from process_window_logs_segments[where model = "\<lambda>_ :: int list. Segments ?segs" and audio = "[]",
      OF _ _ r] have
    "\<exists>ls. seg_lines (\<lambda>_. ''T'') 1 ?segs = Some ls \<and> length ls = 2" by simp
  with r show ?thesis by simp
qed

lemma segment_loop_unwritable:
  "\<not> log_writable f \<Longrightarrow> segs \<noteq> [] \<Longrightarrow> \<exists>e. segment_loop clock (Some f) chunk segs = Inl e"
  by (cases segs) (auto split: option.splits)

lemma segment_loop_log_Inr_iff:
  "(\<exists>r. segment_loop clock (Some f) chunk segs = Inr r) \<longleftrightarrow>
     (seg_lines clock (length (log_lines f)) segs \<noteq> None \<and> (log_writable f \<or> segs = []))"
proof
  assume "\<exists>r. segment_loop clock (Some f) chunk segs = Inr r"
  then obtain lf c where r: "segment_loop clock (Some f) chunk segs = Inr (lf, c)" by auto
  show "seg_lines clock (length (log_lines f)) segs \<noteq> None \<and> (log_writable f \<or> segs = [])"
    using segment_loop_log_Inr[OF r] segment_loop_unwritable[of f segs clock chunk] r by auto
next
  assume h: "seg_lines clock (length (log_lines f)) segs \<noteq> None \<and> (log_writable f \<or> segs = [])"
  then show "\<exists>r. segment_loop clock (Some f) chunk segs = Inr r"
    using segment_loop_log_ok[of f clock segs _ chunk] by (cases "segs = []") auto
qed

text \<open>C18. Processing a window fails (the thread panics) exactly when the model fails to create its state, run, or count segments, or a segment text is missing, or, with a log file, a segment time is missing or a write fails.\<close>

theorem process_window_fails_iff:
  "(\<exists>e. process_window model phrase clock ok st audio = Inl e) \<longleftrightarrow>
     (case model audio of
        Segments segs \<Rightarrow>
          (case disp_log st of
             None \<Rightarrow> those (map seg_text segs) = None
           | Some f \<Rightarrow> seg_lines clock (length (log_lines f)) segs = None \<or>
                       (\<not> log_writable f \<and> segs \<noteq> []))
      | _ \<Rightarrow> True)"
proof (cases "model audio")
  case (Segments segs)
  show ?thesis
  proof (cases "disp_log st")
    case None
    then show ?thesis using Segments
      by (auto simp: process_window_def segment_loop_nolog Let_def split: option.splits)
  next
    case (Some f)
    have "(\<exists>e. segment_loop clock (Some f) [] segs = Inl e) \<longleftrightarrow>
            \<not> (\<exists>r. segment_loop clock (Some f) [] segs = Inr r)"
      by (cases "segment_loop clock (Some f) [] segs") auto
    then show ?thesis using Segments Some segment_loop_log_Inr_iff[of clock f "[]" segs]
      by (auto simp: process_window_def Let_def split: sum.splits prod.splits)
  qed
qed (simp_all add: process_window_def)

theorem process_window_fails_iff_witness:
  "(\<exists>e. process_window (\<lambda>_ :: int list. RunFailed) ''x'' (\<lambda>_. []) True
          \<lparr>disp_log = None, disp_kills = 0, disp_stderr = []\<rparr> [] = Inl e) \<and>
   (\<exists>e. process_window (\<lambda>_ :: int list. Segments [\<lparr>seg_text = Some ''a'', seg_t0 = None, seg_t1 = Some 1\<rparr>])
          ''x'' (\<lambda>_. []) True
          \<lparr>disp_log = Some \<lparr>log_lines = [], log_writable = True\<rparr>, disp_kills = 0, disp_stderr = []\<rparr> [] = Inl e) \<and>
   \<not> (\<exists>e. process_window (\<lambda>_ :: int list. Segments [\<lparr>seg_text = Some ''a'', seg_t0 = None, seg_t1 = Some 1\<rparr>])
          ''x'' (\<lambda>_. []) True \<lparr>disp_log = None, disp_kills = 0, disp_stderr = []\<rparr> [] = Inl e)"
  using process_window_fails_iff[of "\<lambda>_ :: int list. RunFailed" "''x''" "\<lambda>_. []" True
          "\<lparr>disp_log = None, disp_kills = 0, disp_stderr = []\<rparr>" "[]"]
    process_window_fails_iff[of "\<lambda>_ :: int list. Segments [\<lparr>seg_text = Some ''a'', seg_t0 = None, seg_t1 = Some 1\<rparr>]"
          "''x''" "\<lambda>_. []" True
          "\<lparr>disp_log = Some \<lparr>log_lines = [], log_writable = True\<rparr>, disp_kills = 0, disp_stderr = []\<rparr>" "[]"]
    process_window_fails_iff[of "\<lambda>_ :: int list. Segments [\<lparr>seg_text = Some ''a'', seg_t0 = None, seg_t1 = Some 1\<rparr>]"
          "''x''" "\<lambda>_. []" True "\<lparr>disp_log = None, disp_kills = 0, disp_stderr = []\<rparr>" "[]"]
  by simp

text \<open>C19. A failure of the kill pipeline is not fatal: the window is processed as when the pipeline succeeds, the log is the same, and the failure is reported on standard error.\<close>

theorem process_window_pipe_failure_survives:
  assumes "process_window model phrase clock True st audio = Inr st1"
  shows "\<exists>st2. process_window model phrase clock False st audio = Inr st2 \<and>
           disp_log st2 = disp_log st1 \<and> disp_kills st2 = disp_kills st \<and>
           (disp_kills st1 \<noteq> disp_kills st \<longrightarrow> disp_stderr st2 = disp_stderr st @ [''Shell Command error''])"
  using process_window_Inr[OF assms]
  by (auto simp: process_window_def run_kill_pipeline_def)

theorem process_window_pipe_failure_survives_witness:
  "process_window (\<lambda>_ :: int list. Segments [\<lparr>seg_text = Some ''octopus'', seg_t0 = Some 0, seg_t1 = Some 1\<rparr>])
     ''Octopus'' (\<lambda>_. []) True \<lparr>disp_log = None, disp_kills = 0, disp_stderr = []\<rparr> [] =
     Inr \<lparr>disp_log = None, disp_kills = 1, disp_stderr = []\<rparr> \<and>
   process_window (\<lambda>_ :: int list. Segments [\<lparr>seg_text = Some ''octopus'', seg_t0 = Some 0, seg_t1 = Some 1\<rparr>])
     ''Octopus'' (\<lambda>_. []) False \<lparr>disp_log = None, disp_kills = 0, disp_stderr = []\<rparr> [] =
     Inr \<lparr>disp_log = None, disp_kills = 0, disp_stderr = [''Shell Command error'']\<rparr>"
proof -
  have r: "process_window (\<lambda>_ :: int list. Segments [\<lparr>seg_text = Some ''octopus'', seg_t0 = Some 0, seg_t1 = Some 1\<rparr>])
     ''Octopus'' (\<lambda>_. []) True \<lparr>disp_log = None, disp_kills = 0, disp_stderr = []\<rparr> [] =
     Inr \<lparr>disp_log = None, disp_kills = 1, disp_stderr = []\<rparr>"
    by (simp add: process_window_def run_kill_pipeline_def code_phrase_matches_def to_lowercase_def
                  lower_char_def model_evals)
  from process_window_pipe_failure_survives[OF r] obtain st2 where
    "process_window (\<lambda>_ :: int list. Segments [\<lparr>seg_text = Some ''octopus'', seg_t0 = Some 0, seg_t1 = Some 1\<rparr>])
     ''Octopus'' (\<lambda>_. []) False \<lparr>disp_log = None, disp_kills = 0, disp_stderr = []\<rparr> [] = Inr st2"
    "disp_log st2 = None" "disp_kills st2 = 0" "disp_stderr st2 = [''Shell Command error'']"
    by auto
  with r show ?thesis by simp
qed

subsection \<open>Decimal printing\<close>

lemma digits_of_nat_digits: "c \<in> set (digits_of_nat n) \<Longrightarrow> 48 \<le> (of_char c :: nat) \<and> (of_char c :: nat) \<le> 57"
proof (induction n rule: digits_of_nat.induct)
  case (1 n)
  have m: "48 + m < (256 :: nat) \<Longrightarrow> of_char (char_of (48 + m) :: char) = 48 + m" for m :: nat
    by (simp add: of_char_of)
  show ?case
  proof (cases "n < 10")
    case True
    with 1(2) m[of n] show ?thesis by (simp add: digits_of_nat.simps[of n] del: digits_of_nat.simps)
  next
    case False
    have "n mod 10 < 10" by simp
    with 1 False m[of "n mod 10"] show ?thesis by (auto simp: digits_of_nat.simps[of n] simp del: digits_of_nat.simps)
  qed
qed

lemma digits_of_nat_ne: "digits_of_nat n \<noteq> []"
  by (simp add: digits_of_nat.simps[of n] del: digits_of_nat.simps)

lemma nat_of_digits_of_nat: "nat_of_digits (digits_of_nat n) = n"
proof (induction n rule: digits_of_nat.induct)
  case (1 n)
  have m: "m < 10 \<Longrightarrow> digit_value (char_of (48 + m)) = m" for m :: nat
    by (simp add: digit_value_def of_char_of)
  show ?case
  proof (cases "n < 10")
    case True
    with m[of n] show ?thesis by (simp add: digits_of_nat.simps[of n] nat_of_digits_def del: digits_of_nat.simps)
  next
    case False
    with 1 m[of "n mod 10"] show ?thesis
      by (simp add: digits_of_nat.simps[of n] nat_of_digits_def del: digits_of_nat.simps)
  qed
qed

lemma int_to_string_roundtrip:
  "int_of_string (int_to_string i) = i \<and> int_to_string i \<noteq> [] \<and>
   (\<forall>c \<in> set (int_to_string i). c = CHR ''-'' \<or> (48 \<le> (of_char c :: nat) \<and> (of_char c :: nat) \<le> 57))"
proof -
  obtain d ds where h: "digits_of_nat (nat \<bar>i\<bar>) = d # ds" using digits_of_nat_ne by (cases "digits_of_nat (nat \<bar>i\<bar>)") (auto simp del: digits_of_nat.simps)
  then have "48 \<le> (of_char d :: nat) \<and> (of_char d :: nat) \<le> 57" using digits_of_nat_digits[of d "nat \<bar>i\<bar>"] by (simp del: digits_of_nat.simps)
  then have nd: "d \<noteq> CHR ''-''" by auto
  show ?thesis
  proof (cases "i < 0")
    case True
    then have "int_to_string i = CHR ''-'' # digits_of_nat (nat \<bar>i\<bar>)" by (simp add: int_to_string_def del: digits_of_nat.simps)
    with True nat_of_digits_of_nat[of "nat \<bar>i\<bar>"] digits_of_nat_digits[of _ "nat \<bar>i\<bar>"] show ?thesis
      by (auto simp: int_of_string_def simp del: digits_of_nat.simps)
  next
    case False
    then have "int_to_string i = d # ds" using h by (simp add: int_to_string_def del: digits_of_nat.simps)
    with False nd h nat_of_digits_of_nat[of "nat \<bar>i\<bar>"] digits_of_nat_digits[of _ "nat \<bar>i\<bar>"] show ?thesis
      by (auto simp: int_of_string_def simp del: digits_of_nat.simps split: list.splits)
  qed
qed

lemma int_to_string_chars:
  assumes c: "c \<in> set (int_to_string i)"
  shows "c \<noteq> CHR '' '' \<and> c \<noteq> CHR '']'' \<and> c \<noteq> CHR ''|''"
proof -
  from int_to_string_roundtrip[of i] c
  have h: "c = CHR ''-'' \<or> (48 \<le> (of_char c :: nat) \<and> (of_char c :: nat) \<le> 57)" by blast
  have v: "of_char (CHR '' '') = (32 :: nat)" "of_char (CHR '']'') = (93 :: nat)"
    "of_char (CHR ''|'') = (124 :: nat)"
    by simp_all
  show ?thesis
  proof (intro conjI notI)
    assume "c = CHR '' ''" with h v show False by simp
  next
    assume "c = CHR '']''" with h v show False by simp
  next
    assume "c = CHR ''|''" with h v show False by simp
  qed
qed

text \<open>C38. Log lines read back: a line written by \<open>format_log_line\<close> (line 128) splits at
  its separators into the wall-clock time, the two time bounds (whose decimal text parses
  back to the numbers) and the segment text, provided the time contains no \<open>|\<close>.\<close>

theorem log_line_roundtrip:
  assumes "CHR ''|'' \<notin> set (ll_time l)"
  shows "parse_log_line (format_log_line l) = l"
proof -
  have t: "\<forall>x \<in> set (ll_time l). x \<noteq> CHR ''|''" using assms by blast
  have a: "\<forall>x \<in> set (int_to_string (ll_t0 l)). x \<noteq> CHR '' ''"
    and b: "\<forall>x \<in> set (int_to_string (ll_t1 l)). x \<noteq> CHR '']''"
    using int_to_string_chars by blast+
  have "parse_log_line (format_log_line l) =
          \<lparr>ll_time = ll_time l, ll_t0 = int_of_string (int_to_string (ll_t0 l)),
           ll_t1 = int_of_string (int_to_string (ll_t1 l)), ll_text = ll_text l\<rparr>"
    using t a b
    by (simp add: parse_log_line_def format_log_line_def Let_def takeWhile_append2 dropWhile_append2
             del: digits_of_nat.simps)
  then show ?thesis using int_to_string_roundtrip by (simp del: digits_of_nat.simps)
qed

theorem log_line_roundtrip_witness:
  "CHR ''|'' \<notin> set ''12:00'' \<and>
   format_log_line \<lparr>ll_time = ''12:00'', ll_t0 = 0, ll_t1 = 250, ll_text = '' hi''\<rparr> = ''[12:00 | 0 - 250]:  hi'' \<and>
   parse_log_line ''[12:00 | 0 - 250]:  hi'' = \<lparr>ll_time = ''12:00'', ll_t0 = 0, ll_t1 = 250, ll_text = '' hi''\<rparr>"
proof -
  have n: "CHR ''|'' \<notin> set (ll_time \<lparr>ll_time = ''12:00'', ll_t0 = 0, ll_t1 = 250, ll_text = '' hi''\<rparr>)"
    by simp
  have f: "format_log_line \<lparr>ll_time = ''12:00'', ll_t0 = 0, ll_t1 = 250, ll_text = '' hi''\<rparr> =
             ''[12:00 | 0 - 250]:  hi''"
    by (simp add: format_log_line_def int_to_string_def char_eval)
  from log_line_roundtrip[OF n] f show ?thesis by simp
qed

end
