(* ===== verification/Devices.thy ===== *)
theory Devices
  imports Dispatcher
begin

text \<open>
  Start-up of \<open>main\<close> (\<open>src/src/main.rs\<close>, lines 39--73 and 190--205): the list-devices
  mode, the choice of the input device by name, and the checks on the device before the
  stream plays. The audio host of \<open>cpal\<close> is an environment: the list of input devices
  (\<open>None\<close> when \<open>input_devices()\<close> fails), each device's name (\<open>None\<close> when \<open>name()\<close> fails)
  and default input configuration, and the default input device. Whether
  \<open>build_input_stream\<close> and \<open>play\<close> succeed are inputs. The \<open>Debug\<close> prints of lines 68
  and 73 are not modelled (their text is \<open>cpal\<close>'s formatting).
\<close>

datatype sample_format = F32 | I16 | U16 | OtherFormat string

record stream_config =
  sc_channels :: nat
  sc_sample_rate :: nat
  sc_format :: sample_format

record device_info =
  dev_name :: "string option"
  dev_config :: "stream_config option"

record host =
  host_devices :: "device_info list option"
  host_default :: "device_info option"

text \<open>How start-up ends: \<open>return Ok(())\<close> after listing, \<open>return Err\<close> through \<open>?\<close> or the
  unsupported-format arm, a panic of \<open>expect\<close>, or the stream playing (the state
  \<open>Pipeline.pipeline_start\<close> begins from).\<close>

datatype main_error =
    InputDevicesFailed                     \<comment> \<open>\<open>host.input_devices()?\<close>, lines 46 and 62\<close>
  | DeviceNameFailed                       \<comment> \<open>\<open>device.name()?\<close>, line 67\<close>
  | UnsupportedSampleFormat sample_format  \<comment> \<open>lines 198--202\<close>
  | BuildStreamFailed                      \<comment> \<open>\<open>build_input_stream(..)?\<close>, line 197\<close>
  | PlayStreamFailed                       \<comment> \<open>\<open>stream.play()?\<close>, line 205\<close>

datatype startup_result =
    ListedDevices
  | StartupFailed main_error
  | StartupPanicked string
  | StreamPlaying device_info stream_config

subsection \<open>List-devices mode, lines 43--56\<close>

text \<open>The loop of lines 46--50: the names that can be read, in order.\<close>

fun device_names :: "device_info list \<Rightarrow> string list" where
  "device_names [] = []"
| "device_names (d # ds) =
     (case dev_name d of Some n \<Rightarrow> n # device_names ds | None \<Rightarrow> device_names ds)"

text \<open>The loop of lines 52--54, \<open>println!("\t {idx}. {device}")\<close>.\<close>

fun device_lines :: "nat \<Rightarrow> string list \<Rightarrow> string list" where
  "device_lines i [] = []"
| "device_lines i (n # ns) =
     (CHR 0x09 # CHR '' '' # digits_of_nat i @ ''. '' @ n) # device_lines (Suc i) ns"

definition list_input_devices :: "host \<Rightarrow> string list \<times> main_error option" where
  "list_input_devices h =
     (case host_devices h of
        None \<Rightarrow> ([''Polling input devices...''], Some InputDevicesFailed)
      | Some ds \<Rightarrow>
          ([''Polling input devices...'', ''Devices:''] @ device_lines 0 (device_names ds), None))"

subsection \<open>Choice of the input device, lines 59--65\<close>

definition find_input_device :: "opt \<Rightarrow> host \<Rightarrow> main_error + device_info option" where
  "find_input_device o' h =
     (if device o' = ''default'' then Inr (host_default h)
      else case host_devices h of
        None \<Rightarrow> Inl InputDevicesFailed
      | Some ds \<Rightarrow>
          Inr (find (\<lambda>x. case dev_name x of Some y \<Rightarrow> y = device o' | None \<Rightarrow> False) ds))"

text \<open>The whole start-up: the printed lines and how it ends.\<close>

definition main_startup :: "opt \<Rightarrow> host \<Rightarrow> bool \<Rightarrow> bool \<Rightarrow> string list \<times> startup_result" where
  "main_startup o' h build_ok play_ok =
     (if list_devices o' then
        (case list_input_devices h of
           (out, None) \<Rightarrow> (out, ListedDevices)
         | (out, Some e) \<Rightarrow> (out, StartupFailed e))
      else case find_input_device o' h of
        Inl e \<Rightarrow> ([], StartupFailed e)
      | Inr None \<Rightarrow> ([], StartupPanicked ''failed to find input device'')
      | Inr (Some d) \<Rightarrow>
          (case dev_name d of
             None \<Rightarrow> ([], StartupFailed DeviceNameFailed)
           | Some n \<Rightarrow>
               (case dev_config d of
                  None \<Rightarrow> ([''Input device: '' @ n], StartupPanicked ''Failed to get default input config'')
                | Some c \<Rightarrow>
                    if sc_format c \<noteq> F32
                    then ([''Input device: '' @ n], StartupFailed (UnsupportedSampleFormat (sc_format c)))
                    else if \<not> build_ok then ([''Input device: '' @ n], StartupFailed BuildStreamFailed)
                    else if \<not> play_ok then ([''Input device: '' @ n], StartupFailed PlayStreamFailed)
                    else ([''Input device: '' @ n], StreamPlaying d c))))"

subsection \<open>Lemmas\<close>

lemma find_input_device_named:
  assumes "device o' \<noteq> ''default''" and "host_devices h = Some ds"
  shows "find_input_device o' h = Inr (find (\<lambda>x. dev_name x = Some (device o')) ds)"
proof -
  have "find (\<lambda>x. case dev_name x of Some y \<Rightarrow> y = device o' | None \<Rightarrow> False) ds =
        find (\<lambda>x. dev_name x = Some (device o')) ds"
    by (rule find_cong) (auto split: option.splits)
  with assms show ?thesis by (simp add: find_input_device_def)
qed

lemma find_Some_first:
  "find P ds = Some d \<longleftrightarrow> (\<exists>i < length ds. ds ! i = d \<and> P d \<and> (\<forall>j < i. \<not> P (ds ! j)))"
  by (auto simp: find_Some_iff)

subsection \<open>Properties of start-up\<close>

text \<open>C31. Choice of the input device: the name \<open>default\<close> always selects the host's default
  input device, even when a device of that name exists; any other name selects the first
  device of the host's list that carries it, and no device when none does.\<close>

theorem find_input_device_choice:
  assumes "host_devices h = Some ds"
  shows "(find_input_device o' h = Inr (Some d) \<longleftrightarrow>
            (if device o' = ''default'' then host_default h = Some d
             else \<exists>i < length ds. ds ! i = d \<and> dev_name d = Some (device o') \<and>
                     (\<forall>j < i. dev_name (ds ! j) \<noteq> Some (device o')))) \<and>
         (find_input_device o' h = Inr None \<longleftrightarrow>
            (if device o' = ''default'' then host_default h = None
             else \<forall>x \<in> set ds. dev_name x \<noteq> Some (device o')))"
proof (cases "device o' = ''default''")
  case True
  then show ?thesis by (simp add: find_input_device_def)
next
  case False
  with find_input_device_named[OF False assms] show ?thesis
    by (simp add: find_Some_first find_None_iff Ball_def)
qed

theorem find_input_device_choice_witness:
  "host_devices \<lparr>host_devices = Some [\<lparr>dev_name = Some ''default'', dev_config = None\<rparr>],
                 host_default = Some \<lparr>dev_name = Some ''hw:0'', dev_config = None\<rparr>\<rparr> =
     Some [\<lparr>dev_name = Some ''default'', dev_config = None\<rparr>] \<and>
   find_input_device default_opt
     \<lparr>host_devices = Some [\<lparr>dev_name = Some ''default'', dev_config = None\<rparr>],
      host_default = Some \<lparr>dev_name = Some ''hw:0'', dev_config = None\<rparr>\<rparr> =
     Inr (Some \<lparr>dev_name = Some ''hw:0'', dev_config = None\<rparr>)"
proof -
  let ?ds = "[\<lparr>dev_name = Some ''default'', dev_config = None\<rparr>]"
  let ?h = "\<lparr>host_devices = Some ?ds, host_default = Some \<lparr>dev_name = Some ''hw:0'', dev_config = None\<rparr>\<rparr>"
  have "host_devices ?h = Some ?ds" by simp
  from find_input_device_choice[OF this, of default_opt "\<lparr>dev_name = Some ''hw:0'', dev_config = None\<rparr>"]
  show ?thesis by (simp add: default_opt_def)
qed

text \<open>C32. The stream plays only in capture mode, for the device the choice above
  selected, whose name and default configuration could be read, with samples in \<open>f32\<close>,
  after \<open>build_input_stream\<close> and \<open>play\<close> succeeded; the only line printed by then is the
  device's name.\<close>

theorem main_startup_playing:
  assumes "main_startup o' h build_ok play_ok = (out, StreamPlaying d c)"
  shows "\<not> list_devices o' \<and> find_input_device o' h = Inr (Some d) \<and> dev_config d = Some c \<and>
         sc_format c = F32 \<and> build_ok \<and> play_ok \<and> (\<exists>n. dev_name d = Some n \<and> out = [''Input device: '' @ n])"
  using assms
  by (auto simp: main_startup_def split: if_splits prod.splits option.splits sum.splits)

theorem main_startup_playing_witness:
  "main_startup default_opt
     \<lparr>host_devices = Some [], host_default = Some \<lparr>dev_name = Some ''hw:0'',
        dev_config = Some \<lparr>sc_channels = 2, sc_sample_rate = 44100, sc_format = F32\<rparr>\<rparr>\<rparr> True True =
     ([''Input device: hw:0''], StreamPlaying \<lparr>dev_name = Some ''hw:0'',
        dev_config = Some \<lparr>sc_channels = 2, sc_sample_rate = 44100, sc_format = F32\<rparr>\<rparr>
        \<lparr>sc_channels = 2, sc_sample_rate = 44100, sc_format = F32\<rparr>) \<and>
   sc_format \<lparr>sc_channels = 2, sc_sample_rate = 44100, sc_format = F32\<rparr> = F32"
proof -
  have run: "main_startup default_opt
     \<lparr>host_devices = Some [], host_default = Some \<lparr>dev_name = Some ''hw:0'',
        dev_config = Some \<lparr>sc_channels = 2, sc_sample_rate = 44100, sc_format = F32\<rparr>\<rparr>\<rparr> True True =
     ([''Input device: hw:0''], StreamPlaying \<lparr>dev_name = Some ''hw:0'',
        dev_config = Some \<lparr>sc_channels = 2, sc_sample_rate = 44100, sc_format = F32\<rparr>\<rparr>
        \<lparr>sc_channels = 2, sc_sample_rate = 44100, sc_format = F32\<rparr>)"
    by (simp add: main_startup_def find_input_device_def default_opt_def)
  from main_startup_playing[OF run] run show ?thesis by simp
qed

text \<open>C33. Start-up panics (\<open>expect\<close>) exactly in capture mode when no device is found or
  the chosen device, whose name could be read, has no default input configuration; every
  other failure is an \<open>Err\<close> returned by \<open>main\<close>.\<close>

theorem main_startup_panics:
  "(\<exists>msg. snd (main_startup o' h build_ok play_ok) = StartupPanicked msg) \<longleftrightarrow>
     \<not> list_devices o' \<and>
     (find_input_device o' h = Inr None \<or>
      (\<exists>d. find_input_device o' h = Inr (Some d) \<and> dev_name d \<noteq> None \<and> dev_config d = None))"
  by (auto simp: main_startup_def split: if_splits prod.splits option.splits sum.splits)

theorem main_startup_panics_witness:
  "snd (main_startup default_opt \<lparr>host_devices = Some [], host_default = None\<rparr> True True) =
     StartupPanicked ''failed to find input device'' \<and>
   find_input_device default_opt \<lparr>host_devices = Some [], host_default = None\<rparr> = Inr None"
proof -
  have f: "find_input_device default_opt \<lparr>host_devices = Some [], host_default = None\<rparr> = Inr None"
    by (simp add: find_input_device_def default_opt_def)
  have "\<exists>msg. snd (main_startup default_opt \<lparr>host_devices = Some [], host_default = None\<rparr> True True) =
          StartupPanicked msg"
    using main_startup_panics[of default_opt] f by (simp add: default_opt_def)
  then show ?thesis using f by (simp add: main_startup_def default_opt_def)
qed

end

