(* ===== verification/Pipeline.thy ===== *)
theory Pipeline
  imports Mixer Accumulator Dispatcher
begin

text \<open>
  The Lifecycle Controller and the concurrency of the program: \<open>main\<close> of
  \<open>src/src/main.rs\<close> from the point where both threads are spawned and the stream plays
  (lines 75--219), with the capture callback, the data thread and the inference thread
  running beside it. A state records main's program counter, which of the channel
  endpoints main still owns, the two \<open>mpsc\<close> queues (audio chunks, queue A; resampled
  windows, queue B), the status of each thread, and four histories that no code reads:
  the chunks sent on A, the chunks the data thread took off A, the windows sent on B and
  the windows the inference thread took off B. \<open>pipe_step\<close> has one rule per atomic
  action of one of the four execution contexts; the scheduler is free. \<open>mpsc\<close>
  semantics: \<open>send\<close> fails exactly when the receiver is gone; \<open>recv\<close> returns queued
  items first and fails once the queue is empty and every sender is gone. A thread that
  panics drops its receiver (the queue's items are lost) and the senders it owns. When
  main returns or panics the process ends, so nothing steps after that.
  The invariant \<open>pipe_inv\<close> holds in every reachable state; \<open>shape_ok\<close>, \<open>kills_ok\<close>,
  \<open>trigger_ok\<close> and \<open>log_ok\<close> are further invariants on the windows of channel B, on the
  kill count, on the kill pipeline runs (once per received window that triggers, by
  \<open>window_triggers\<close>) and on the log file, which holds the spec's lines (\<open>log_spec\<close>)
  for the windows received.
\<close>

datatype 'st thread = Spawned | Running 'st | Exited 'st | Panicked

datatype main_pc =
    WaitStdin          \<comment> \<open>blocked in \<open>stdin().read_line\<close>, line 208\<close>
  | DropStream         \<comment> \<open>line 213\<close>
  | DropAudioTx        \<comment> \<open>line 214\<close>
  | DropInferenceTx    \<comment> \<open>line 215\<close>
  | JoinData           \<comment> \<open>\<open>data_thread_handle.join().unwrap()\<close>, line 217\<close>
  | JoinInference      \<comment> \<open>line 218\<close>
  | Returned           \<comment> \<open>\<open>Ok(())\<close>, line 219\<close>
  | MainPanicked       \<comment> \<open>an \<open>expect\<close> or \<open>unwrap\<close> of main failed\<close>

record ('a, 's) pipe_cfg =
  cfg_W :: nat
  cfg_opt :: opt
  cfg_resampler :: "('a, 's) resampler option"
  cfg_model :: "'a list \<Rightarrow> whisper_outcome"
  cfg_clock :: "nat \<Rightarrow> string"

record ('a, 's) pipeline =
  pc :: main_pc
  stream_live :: bool
  callback_dead :: bool
  audio_tx_live :: bool
  inference_tx_live :: bool
  queue_a :: "'a chunk list"
  queue_b :: "'a chunk list"
  data_th :: "('a, 's) data_thread thread"
  infer_th :: "disp_state thread"
  captured :: "'a chunk list"
  consumed :: "'a chunk list"
  emitted :: "'a chunk list"
  delivered :: "'a chunk list"

definition receiving :: "'st thread \<Rightarrow> bool" where
  "receiving t = (case t of Spawned \<Rightarrow> True | Running _ \<Rightarrow> True | _ \<Rightarrow> False)"

definition process_alive :: "('a, 's) pipeline \<Rightarrow> bool" where
  "process_alive s \<longleftrightarrow> pc s \<noteq> Returned \<and> pc s \<noteq> MainPanicked"

text \<open>Queue A's senders: \<open>audio_tx\<close> (main) and its clone inside the stream's callback.
  Queue B's senders: \<open>inference_tx\<close> (main) and \<open>inference_tx_clone\<close>, owned by the data
  thread from its spawn to its end.\<close>

definition a_senders_live :: "('a, 's) pipeline \<Rightarrow> bool" where
  "a_senders_live s \<longleftrightarrow> stream_live s \<or> audio_tx_live s"

definition b_senders_live :: "('a, 's) pipeline \<Rightarrow> bool" where
  "b_senders_live s \<longleftrightarrow> inference_tx_live s \<or> receiving (data_th s)"

definition option_list :: "'a option \<Rightarrow> 'a list" where
  "option_list x = (case x of None \<Rightarrow> [] | Some v \<Rightarrow> [v])"

text \<open>The state once \<open>stream.play()\<close> has returned (line 205).\<close>

definition pipeline_start :: "('a, 's) pipeline" where
  "pipeline_start =
     \<lparr>pc = WaitStdin, stream_live = True, callback_dead = False, audio_tx_live = True,
      inference_tx_live = True, queue_a = [], queue_b = [], data_th = Spawned, infer_th = Spawned,
      captured = [], consumed = [], emitted = [], delivered = []\<rparr>"

inductive pipe_step :: "('a::field, 's) pipe_cfg \<Rightarrow> ('a, 's) pipeline \<Rightarrow> ('a, 's) pipeline \<Rightarrow> bool"
  for cfg :: "('a::field, 's) pipe_cfg" where
  capture:
    "process_alive s \<Longrightarrow> stream_live s \<Longrightarrow> \<not> callback_dead s \<Longrightarrow>
     buffer_stereo_data input (receiving (data_th s)) = Inr c \<Longrightarrow>
     pipe_step cfg s (s\<lparr>queue_a := queue_a s @ [c], captured := captured s @ [c]\<rparr>)"
| capture_panic:
    "process_alive s \<Longrightarrow> stream_live s \<Longrightarrow> \<not> callback_dead s \<Longrightarrow>
     buffer_stereo_data (input :: 'a list) (receiving (data_th s)) = Inl p \<Longrightarrow>
     pipe_step cfg s (s\<lparr>callback_dead := True\<rparr>)"
| data_start:
    "process_alive s \<Longrightarrow> data_th s = Spawned \<Longrightarrow>
     data_thread_init (cfg_W cfg) (cfg_resampler cfg) = Inr dt \<Longrightarrow>
     pipe_step cfg s (s\<lparr>data_th := Running dt\<rparr>)"
| data_start_panic:
    "process_alive s \<Longrightarrow> data_th s = Spawned \<Longrightarrow>
     data_thread_init (cfg_W cfg) (cfg_resampler cfg) = Inl e \<Longrightarrow>
     pipe_step cfg s (s\<lparr>data_th := Panicked, queue_a := []\<rparr>)"
| data_recv:
    "process_alive s \<Longrightarrow> data_th s = Running dt \<Longrightarrow> queue_a s = c # rest \<Longrightarrow>
     data_thread_recv (cfg_W cfg) (receiving (infer_th s)) dt c = Inr (dt', out) \<Longrightarrow>
     pipe_step cfg s (s\<lparr>data_th := Running dt', queue_a := rest, consumed := consumed s @ [c],
                       queue_b := queue_b s @ option_list out, emitted := emitted s @ option_list out\<rparr>)"
| data_recv_panic:
    "process_alive s \<Longrightarrow> data_th s = Running dt \<Longrightarrow> queue_a s = c # rest \<Longrightarrow>
     data_thread_recv (cfg_W cfg) (receiving (infer_th s)) dt c = Inl e \<Longrightarrow>
     pipe_step cfg s (s\<lparr>data_th := Panicked, queue_a := [], consumed := consumed s @ [c]\<rparr>)"
| data_exit:
    "process_alive s \<Longrightarrow> data_th s = Running dt \<Longrightarrow> queue_a s = [] \<Longrightarrow> \<not> a_senders_live s \<Longrightarrow>
     pipe_step cfg s (s\<lparr>data_th := Exited dt\<rparr>)"
| infer_start:
    "process_alive s \<Longrightarrow> infer_th s = Spawned \<Longrightarrow>
     inference_thread_init (cfg_opt cfg) open_ok old_lines model_ok = Inr st \<Longrightarrow>
     pipe_step cfg s (s\<lparr>infer_th := Running st\<rparr>)"
| infer_start_panic:
    "process_alive s \<Longrightarrow> infer_th s = Spawned \<Longrightarrow>
     inference_thread_init (cfg_opt cfg) open_ok old_lines model_ok = Inl e \<Longrightarrow>
     pipe_step cfg s (s\<lparr>infer_th := Panicked, queue_b := []\<rparr>)"
| infer_recv:
    "process_alive s \<Longrightarrow> infer_th s = Running st \<Longrightarrow> queue_b s = w # rest \<Longrightarrow>
     process_window (cfg_model cfg) (code_phrase (cfg_opt cfg)) (cfg_clock cfg) pipe_ok st w = Inr st' \<Longrightarrow>
     pipe_step cfg s (s\<lparr>infer_th := Running st', queue_b := rest, delivered := delivered s @ [w]\<rparr>)"
| infer_recv_panic:
    "process_alive s \<Longrightarrow> infer_th s = Running st \<Longrightarrow> queue_b s = w # rest \<Longrightarrow>
     process_window (cfg_model cfg) (code_phrase (cfg_opt cfg)) (cfg_clock cfg) pipe_ok st w = Inl e \<Longrightarrow>
     pipe_step cfg s (s\<lparr>infer_th := Panicked, queue_b := [], delivered := delivered s @ [w]\<rparr>)"
| infer_exit:
    "process_alive s \<Longrightarrow> infer_th s = Running st \<Longrightarrow> queue_b s = [] \<Longrightarrow> \<not> b_senders_live s \<Longrightarrow>
     pipe_step cfg s (s\<lparr>infer_th := Exited st\<rparr>)"
| read_line:
    "pc s = WaitStdin \<Longrightarrow> pipe_step cfg s (s\<lparr>pc := DropStream\<rparr>)"
| read_line_panic:
    "pc s = WaitStdin \<Longrightarrow> pipe_step cfg s (s\<lparr>pc := MainPanicked\<rparr>)"
| drop_stream:
    "pc s = DropStream \<Longrightarrow> pipe_step cfg s (s\<lparr>pc := DropAudioTx, stream_live := False\<rparr>)"
| drop_audio_tx:
    "pc s = DropAudioTx \<Longrightarrow> pipe_step cfg s (s\<lparr>pc := DropInferenceTx, audio_tx_live := False\<rparr>)"
| drop_inference_tx:
    "pc s = DropInferenceTx \<Longrightarrow> pipe_step cfg s (s\<lparr>pc := JoinData, inference_tx_live := False\<rparr>)"
| join_data:
    "pc s = JoinData \<Longrightarrow> data_th s = Exited dt \<Longrightarrow> pipe_step cfg s (s\<lparr>pc := JoinInference\<rparr>)"
| join_data_panic:
    "pc s = JoinData \<Longrightarrow> data_th s = Panicked \<Longrightarrow> pipe_step cfg s (s\<lparr>pc := MainPanicked\<rparr>)"
| join_inference:
    "pc s = JoinInference \<Longrightarrow> infer_th s = Exited st \<Longrightarrow> pipe_step cfg s (s\<lparr>pc := Returned\<rparr>)"
| join_inference_panic:
    "pc s = JoinInference \<Longrightarrow> infer_th s = Panicked \<Longrightarrow> pipe_step cfg s (s\<lparr>pc := MainPanicked\<rparr>)"

inductive reach :: "('a::field, 's) pipe_cfg \<Rightarrow> ('a, 's) pipeline \<Rightarrow> bool" for cfg where
  start: "reach cfg pipeline_start"
| step: "reach cfg s \<Longrightarrow> pipe_step cfg s s' \<Longrightarrow> reach cfg s'"

subsection \<open>The lifecycle invariant\<close>

definition is_exited :: "'st thread \<Rightarrow> bool" where
  "is_exited t = (case t of Exited _ \<Rightarrow> True | _ \<Rightarrow> False)"

text \<open>Main drops the stream, then \<open>audio_tx\<close>, then \<open>inference_tx\<close>, and joins the data
  thread before the inference thread.\<close>

definition pc_flags :: "('a, 's) pipeline \<Rightarrow> bool" where
  "pc_flags s \<longleftrightarrow>
     (case pc s of
        WaitStdin \<Rightarrow> stream_live s \<and> audio_tx_live s \<and> inference_tx_live s
      | DropStream \<Rightarrow> stream_live s \<and> audio_tx_live s \<and> inference_tx_live s
      | DropAudioTx \<Rightarrow> \<not> stream_live s \<and> audio_tx_live s \<and> inference_tx_live s
      | DropInferenceTx \<Rightarrow> \<not> stream_live s \<and> \<not> audio_tx_live s \<and> inference_tx_live s
      | JoinData \<Rightarrow> \<not> stream_live s \<and> \<not> audio_tx_live s \<and> \<not> inference_tx_live s
      | JoinInference \<Rightarrow> \<not> stream_live s \<and> \<not> audio_tx_live s \<and> \<not> inference_tx_live s \<and>
                         is_exited (data_th s)
      | Returned \<Rightarrow> \<not> stream_live s \<and> \<not> audio_tx_live s \<and> \<not> inference_tx_live s \<and>
                    is_exited (data_th s) \<and> is_exited (infer_th s)
      | MainPanicked \<Rightarrow> (stream_live s \<and> audio_tx_live s \<and> inference_tx_live s) \<or>
                        (\<not> stream_live s \<and> \<not> audio_tx_live s \<and> \<not> inference_tx_live s))"

text \<open>A queue whose receiver is gone is empty, and a thread that exited normally saw
  every sender of its queue gone.\<close>

definition queues_ok :: "('a, 's) pipeline \<Rightarrow> bool" where
  "queues_ok s \<longleftrightarrow>
     (\<not> receiving (data_th s) \<longrightarrow> queue_a s = []) \<and> (\<not> receiving (infer_th s) \<longrightarrow> queue_b s = []) \<and>
     (is_exited (data_th s) \<longrightarrow> \<not> a_senders_live s) \<and> (is_exited (infer_th s) \<longrightarrow> \<not> b_senders_live s)"

text \<open>Both queues are FIFO and lose nothing while their receiver lives.\<close>

definition history_ok :: "('a, 's) pipeline \<Rightarrow> bool" where
  "history_ok s \<longleftrightarrow>
     (data_th s = Spawned \<longrightarrow> consumed s = [] \<and> emitted s = []) \<and>
     (infer_th s = Spawned \<longrightarrow> delivered s = []) \<and>
     (data_th s \<noteq> Panicked \<longrightarrow> consumed s @ queue_a s = captured s) \<and>
     (infer_th s \<noteq> Panicked \<longrightarrow> delivered s @ queue_b s = emitted s)"

text \<open>The data thread's state is the result of its loop over the chunks it consumed.\<close>

definition data_ok :: "('a, 's) pipe_cfg \<Rightarrow> ('a, 's) pipeline \<Rightarrow> bool" where
  "data_ok cfg s \<longleftrightarrow>
     (case data_th s of
        Running dt \<Rightarrow> (case data_thread_init (cfg_W cfg) (cfg_resampler cfg) of
                        Inr dt0 \<Rightarrow> data_thread_run (cfg_W cfg) dt0 (consumed s) = Inr (dt, emitted s)
                      | Inl _ \<Rightarrow> False)
      | Exited dt \<Rightarrow> (case data_thread_init (cfg_W cfg) (cfg_resampler cfg) of
                        Inr dt0 \<Rightarrow> data_thread_run (cfg_W cfg) dt0 (consumed s) = Inr (dt, emitted s)
                      | Inl _ \<Rightarrow> False)
      | _ \<Rightarrow> True)"

definition pipe_inv :: "('a, 's) pipe_cfg \<Rightarrow> ('a, 's) pipeline \<Rightarrow> bool" where
  "pipe_inv cfg s \<longleftrightarrow> pc_flags s \<and> queues_ok s \<and> history_ok s \<and> data_ok cfg s"

text \<open>Two properties of the channel contents that are not part of \<open>pipe_inv\<close>: every
  window sent, queued or received has \<open>L\<close> samples, and the inference thread has run the
  kill pipeline successfully at most once per window it received.\<close>

definition shape_ok :: "nat \<Rightarrow> ('a, 's) pipeline \<Rightarrow> bool" where
  "shape_ok L s \<longleftrightarrow> (\<forall>w \<in> set (emitted s) \<union> set (queue_b s) \<union> set (delivered s). length w = L)"


text \<open>The spec's trigger (section 3, TriggerEvent): the model returns segments for the
  window, each with its text, and their concatenation contains the phrase.\<close>

definition window_triggers :: "('a list \<Rightarrow> whisper_outcome) \<Rightarrow> string \<Rightarrow> 'a list \<Rightarrow> bool" where
  "window_triggers model phrase w =
     (case model w of
        Segments segs \<Rightarrow> (case those (map seg_text segs) of
                            Some texts \<Rightarrow> code_phrase_matches (concat texts) phrase
                          | None \<Rightarrow> False)
      | _ \<Rightarrow> False)"

text \<open>Every received window that triggers has run the kill pipeline once, counted either
  as a success or as an error line on standard error, and no other window has.\<close>

definition trigger_ok :: "('a, 's) pipe_cfg \<Rightarrow> ('a, 's) pipeline \<Rightarrow> bool" where
  "trigger_ok cfg s \<longleftrightarrow>
     (case infer_th s of
        Running st \<Rightarrow> disp_kills st + length (disp_stderr st) =
          length (filter (window_triggers (cfg_model cfg) (code_phrase (cfg_opt cfg))) (delivered s))
      | Exited st \<Rightarrow> disp_kills st + length (disp_stderr st) =
          length (filter (window_triggers (cfg_model cfg) (code_phrase (cfg_opt cfg))) (delivered s))
      | _ \<Rightarrow> True)"

text \<open>The log the spec prescribes for a sequence of windows (section 6: one line
  \<open>[time | t0 - t1]: text\<close> per segment, in order), written independently of the
  segment loop: \<open>n\<close> is the number of lines already in the file, which the clock reads.\<close>

definition window_log ::
  "(nat \<Rightarrow> string) \<Rightarrow> ('a list \<Rightarrow> whisper_outcome) \<Rightarrow> nat \<Rightarrow> 'a list \<Rightarrow> string list option" where
  "window_log clock model n w = (case model w of Segments segs \<Rightarrow> seg_lines clock n segs | _ \<Rightarrow> None)"

fun log_spec ::
  "(nat \<Rightarrow> string) \<Rightarrow> ('a list \<Rightarrow> whisper_outcome) \<Rightarrow> nat \<Rightarrow> 'a list list \<Rightarrow> string list option" where
  "log_spec clock model n [] = Some []"
| "log_spec clock model n (w # ws) =
     (case window_log clock model n w of
        None \<Rightarrow> None
      | Some ls \<Rightarrow> map_option ((@) ls) (log_spec clock model (n + length ls) ws))"

text \<open>The inference thread's log holds the lines it found when it opened the file,
  followed by the spec's lines for the windows it received.\<close>

definition log_matches :: "('a, 's) pipe_cfg \<Rightarrow> disp_state \<Rightarrow> 'a list list \<Rightarrow> bool" where
  "log_matches cfg st ws \<longleftrightarrow>
     (case disp_log st of
        None \<Rightarrow> True
      | Some f \<Rightarrow> \<exists>n \<le> length (log_lines f).
                   log_spec (cfg_clock cfg) (cfg_model cfg) n ws = Some (drop n (log_lines f)))"

definition log_ok :: "('a, 's) pipe_cfg \<Rightarrow> ('a, 's) pipeline \<Rightarrow> bool" where
  "log_ok cfg s \<longleftrightarrow>
     (case infer_th s of
        Running st \<Rightarrow> log_matches cfg st (delivered s)
      | Exited st \<Rightarrow> log_matches cfg st (delivered s)
      | _ \<Rightarrow> True)"

text \<open>What the inference thread should receive for the chunks \<open>cs\<close>: the spec's windows,
  resampled in order by the resampler's kernel.\<close>

definition expected_windows :: "nat \<Rightarrow> ('a, 's) resampler \<Rightarrow> 'a chunk list \<Rightarrow> 'a list list" where
  "expected_windows W rs cs = resample_windows (rs_kernel rs) (rs_state rs) (windows_spec W 0 [] cs)"

text \<open>A measure that every step decreases once the stream is dropped: queued chunks
  (a chunk on A may become a window on B), the threads' and main's progress.\<close>

fun thread_rank :: "'st thread \<Rightarrow> nat" where
  "thread_rank Spawned = 2"
| "thread_rank (Running _) = 1"
| "thread_rank (Exited _) = 0"
| "thread_rank Panicked = 0"

fun pc_rank :: "main_pc \<Rightarrow> nat" where
  "pc_rank WaitStdin = 7"
| "pc_rank DropStream = 6"
| "pc_rank DropAudioTx = 5"
| "pc_rank DropInferenceTx = 4"
| "pc_rank JoinData = 3"
| "pc_rank JoinInference = 2"
| "pc_rank Returned = 0"
| "pc_rank MainPanicked = 0"

definition shutdown_measure :: "('a, 's) pipeline \<Rightarrow> nat" where
  "shutdown_measure s =
     2 * length (queue_a s) + length (queue_b s) + thread_rank (data_th s) +
     thread_rank (infer_th s) + pc_rank (pc s)"

text \<open>A sample configuration for the worked examples: windows of two samples, a kernel
  that keeps the first sample of each window, the default options, and a model that
  finds no speech.\<close>

definition demo_resampler :: "(rat, unit) resampler" where
  "demo_resampler =
     \<lparr>rs_channels = 1, rs_frames_in = 2, rs_frames_out = 1, rs_state = (),
      rs_kernel = \<lambda>s wave. (s, map (take 1) wave)\<rparr>"

definition demo_cfg :: "(rat, unit) pipe_cfg" where
  "demo_cfg =
     \<lparr>cfg_W = 2, cfg_opt = default_opt, cfg_resampler = Some demo_resampler,
      cfg_model = \<lambda>_. Segments [], cfg_clock = \<lambda>_. ''00:00:00''\<rparr>"

definition demo_disp :: disp_state where
  "demo_disp = \<lparr>disp_log = None, disp_kills = 0, disp_stderr = []\<rparr>"

text \<open>The sample configuration with a log file (which holds one line already) and a model
  that hears one segment in every window.\<close>

definition demo_log_cfg :: "(rat, unit) pipe_cfg" where
  "demo_log_cfg =
     demo_cfg\<lparr>cfg_opt := default_opt\<lparr>out_file := Some ''vi.log''\<rparr>,
              cfg_model := \<lambda>_. Segments [\<lparr>seg_text = Some '' hi'', seg_t0 = Some 0, seg_t1 = Some 5\<rparr>]\<rparr>"

definition demo_log_disp :: disp_state where
  "demo_log_disp =
     \<lparr>disp_log = Some \<lparr>log_lines = [''old'', ''[00:00:00 | 0 - 5]:  hi''], log_writable = True\<rparr>,
      disp_kills = 0, disp_stderr = []\<rparr>"

text \<open>One stereo frame \<open>[1, 3, 2, 6]\<close> captured, mixed to \<open>[2, 4]\<close>, buffered as one window,
  resampled to \<open>[2]\<close> and transcribed; then Enter, the drops and both joins.\<close>

definition demo_returned :: "(rat, unit) pipeline" where
  "demo_returned =
     \<lparr>pc = Returned, stream_live = False, callback_dead = False, audio_tx_live = False,
      inference_tx_live = False, queue_a = [], queue_b = [],
      data_th = Exited \<lparr>buffer = \<lparr>ring_cap = 2, ring_buf = [2, 4]\<rparr>, sample_count = 0,
                        resampler = demo_resampler\<rparr>,
      infer_th = Exited demo_disp,
      captured = [[2, 4]], consumed = [[2, 4]], emitted = [[2]], delivered = [[2]]\<rparr>"

text \<open>The same frame when the model cannot be loaded: the inference thread panics at its
  start, and the data thread panics when it sends its first window.\<close>

definition demo_infer_panic :: "(rat, unit) pipeline" where
  "demo_infer_panic =
     \<lparr>pc = WaitStdin, stream_live = True, callback_dead = False, audio_tx_live = True,
      inference_tx_live = True, queue_a = [], queue_b = [], data_th = Panicked,
      infer_th = Panicked, captured = [[2, 4]], consumed = [[2, 4]], emitted = [], delivered = []\<rparr>"

subsection \<open>Lemmas\<close>

lemma data_thread_recv_alive:
  "data_thread_recv W a dt c = Inr r \<Longrightarrow> data_thread_recv W True dt c = Inr r"
  by (auto simp: data_thread_recv_def split: prod.splits option.splits sum.splits list.splits if_splits)

lemma data_thread_recv_dead:
  "data_thread_recv W False dt c = Inr (dt', out) \<Longrightarrow> out = None"
  by (auto simp: data_thread_recv_def split: prod.splits option.splits sum.splits list.splits if_splits)

lemma data_thread_run_snoc:
  "data_thread_run W dt0 cs = Inr (dt, outs) \<Longrightarrow> data_thread_recv W True dt c = Inr (dt', out) \<Longrightarrow>
     data_thread_run W dt0 (cs @ [c]) = Inr (dt', outs @ option_list out)"
  by (induction cs arbitrary: dt0 outs)
     (auto simp: option_list_def split: sum.splits prod.splits option.splits)

lemma buffer_stereo_data_receiver:
  "buffer_stereo_data input alive = Inr c \<Longrightarrow> alive"
  by (auto simp: buffer_stereo_data_def split: sum.splits if_splits)

lemma pipeline_start_inv: "pipe_inv cfg pipeline_start"
  by (simp add: pipe_inv_def pipeline_start_def pc_flags_def queues_ok_def history_ok_def data_ok_def
                receiving_def is_exited_def)

lemmas pipe_simps = process_alive_def a_senders_live_def b_senders_live_def receiving_def is_exited_def
  option_list_def

lemma pc_flags_step: "pipe_step cfg s s' \<Longrightarrow> pc_flags s \<Longrightarrow> pc_flags s'"
  by (induction rule: pipe_step.induct) (auto simp: pc_flags_def pipe_simps split: main_pc.splits)

lemma queues_ok_step: "pipe_step cfg s s' \<Longrightarrow> pc_flags s \<Longrightarrow> queues_ok s \<Longrightarrow> queues_ok s'"
proof (induction rule: pipe_step.induct)
  case (capture s input c)
  then show ?case by (auto simp: queues_ok_def pipe_simps dest: buffer_stereo_data_receiver)
next
  case (data_recv s dt c rest dt' out)
  then show ?case
    by (cases "receiving (infer_th s)")
       (auto simp: queues_ok_def pipe_simps dest: data_thread_recv_dead split: thread.splits)
qed (auto simp: queues_ok_def pc_flags_def pipe_simps split: thread.splits main_pc.splits)

lemma history_ok_step:
  "pipe_step cfg s s' \<Longrightarrow> queues_ok s \<Longrightarrow> history_ok s \<Longrightarrow> history_ok s'"
proof (induction rule: pipe_step.induct)
  case (capture s input c)
  then show ?case by (auto simp: history_ok_def)
next
  case (data_recv s dt c rest dt' out)
  then show ?case by (auto simp: history_ok_def)
next
  case (infer_recv s st w rest pipe_ok st')
  then show ?case by (auto simp: history_ok_def)
qed (auto simp: history_ok_def queues_ok_def pipe_simps)

lemma data_ok_step:
  "pipe_step cfg s s' \<Longrightarrow> history_ok s \<Longrightarrow> data_ok cfg s \<Longrightarrow> data_ok cfg s'"
proof (induction rule: pipe_step.induct)
  case (data_start s dt)
  then show ?case by (simp add: data_ok_def history_ok_def)
next
  case (data_recv s dt c rest dt' out)
  then show ?case
    by (auto simp: data_ok_def split: sum.splits
             intro: data_thread_run_snoc dest: data_thread_recv_alive)
next
  case (data_exit s dt)
  then show ?case by (simp add: data_ok_def split: sum.splits)
qed (auto simp: data_ok_def split: sum.splits thread.splits)

lemma pipe_inv_step: "pipe_step cfg s s' \<Longrightarrow> pipe_inv cfg s \<Longrightarrow> pipe_inv cfg s'"
  unfolding pipe_inv_def
  using pc_flags_step queues_ok_step history_ok_step data_ok_step by blast

lemma reach_inv: "reach cfg s \<Longrightarrow> pipe_inv cfg s"
  by (induction rule: reach.induct) (auto intro: pipeline_start_inv pipe_inv_step)

subsection \<open>Consequences of the invariant\<close>

lemma windows_spec_prefix: "prefix (windows_spec W p hist cs) (windows_spec W p hist (cs @ ds))"
  by (induction cs arbitrary: p hist) auto

lemma resample_windows_prefix:
  "prefix ws vs \<Longrightarrow> prefix (resample_windows k s ws) (resample_windows k s vs)"
proof (induction ws arbitrary: s vs)
  case (Cons w ws)
  then obtain vs' where "vs = w # vs'" "prefix ws vs'" by (cases vs) auto
  with Cons.IH show ?case by (auto split: prod.splits)
qed simp

lemma expected_windows_prefix:
  "prefix cs ds \<Longrightarrow> prefix (expected_windows W rs cs) (expected_windows W rs ds)"
  unfolding expected_windows_def prefix_def[of cs]
  by (auto intro: resample_windows_prefix windows_spec_prefix)

lemma data_ok_emitted:
  assumes ok: "data_ok cfg s" "history_ok s" and np: "data_th s \<noteq> Panicked"
    and rs: "cfg_resampler cfg = Some rs" "resampler_wf rs" "rs_channels rs = 1" "rs_frames_in rs = cfg_W cfg"
    and nowrap: "\<forall>c \<in> set (consumed s). cfg_W cfg + length c < 2 ^ 64"
  shows "emitted s = expected_windows (cfg_W cfg) rs (consumed s)"
proof (cases "data_th s")
  case Spawned
  with ok(2) show ?thesis by (simp add: history_ok_def expected_windows_def)
next
  case (Running dt)
  with ok(1) rs(1) obtain dt0 where init: "data_thread_init (cfg_W cfg) (Some rs) = Inr dt0"
    and run: "data_thread_run (cfg_W cfg) dt0 (consumed s) = Inr (dt, emitted s)"
    by (auto simp: data_ok_def split: sum.splits)
  from data_thread_init_inv[OF init rs(2-4)] have "data_inv (cfg_W cfg) dt0"
    "ring_buf (buffer dt0) = lastn (cfg_W cfg) []" "sample_count dt0 = 0" "resampler dt0 = rs" by auto
  from data_thread_run_spec[OF this(1,2) nowrap] this(3,4) run show ?thesis
    by (auto simp: expected_windows_def)
next
  case (Exited dt)
  with ok(1) rs(1) obtain dt0 where init: "data_thread_init (cfg_W cfg) (Some rs) = Inr dt0"
    and run: "data_thread_run (cfg_W cfg) dt0 (consumed s) = Inr (dt, emitted s)"
    by (auto simp: data_ok_def split: sum.splits)
  from data_thread_init_inv[OF init rs(2-4)] have "data_inv (cfg_W cfg) dt0"
    "ring_buf (buffer dt0) = lastn (cfg_W cfg) []" "sample_count dt0 = 0" "resampler dt0 = rs" by auto
  from data_thread_run_spec[OF this(1,2) nowrap] this(3,4) run show ?thesis
    by (auto simp: expected_windows_def)
qed (use np in simp)

lemma data_thread_run_snoc_Inl:
  "data_thread_run W dt0 cs = Inr (dt, outs) \<Longrightarrow> data_thread_recv W True dt c = Inl e \<Longrightarrow>
     data_thread_run W dt0 (cs @ [c]) = Inl e"
  by (induction cs arbitrary: dt0 outs) (auto split: sum.splits prod.splits option.splits)

lemma data_thread_init_some:
  "0 < W \<Longrightarrow> \<exists>dt. data_thread_init W (Some rs) = Inr dt"
  by (simp add: data_thread_init_def ring_new_def)

text \<open>Under the resampler's contract the data thread's next iteration cannot fail on its
  own: only a dead inference receiver can make it panic.\<close>

lemma data_recv_total:
  assumes ok: "data_ok cfg s" "history_ok s" and run: "data_th s = Running dt" and q: "queue_a s = c # rest"
    and rs: "cfg_resampler cfg = Some rs" "resampler_wf rs" "rs_channels rs = 1" "rs_frames_in rs = cfg_W cfg"
    and nowrap: "\<forall>c \<in> set (captured s). cfg_W cfg + length c < 2 ^ 64"
  shows "\<exists>r. data_thread_recv (cfg_W cfg) True dt c = Inr r"
proof -
  from ok(1) run rs(1) obtain dt0 where init: "data_thread_init (cfg_W cfg) (Some rs) = Inr dt0"
    and r0: "data_thread_run (cfg_W cfg) dt0 (consumed s) = Inr (dt, emitted s)"
    by (auto simp: data_ok_def split: sum.splits)
  have cap: "consumed s @ queue_a s = captured s" using ok(2) run by (simp add: history_ok_def)
  from data_thread_init_inv[OF init rs(2-4)] have "data_inv (cfg_W cfg) dt0"
    "ring_buf (buffer dt0) = lastn (cfg_W cfg) []" by auto
  moreover have "set (consumed s @ [c]) \<subseteq> set (captured s)"
    unfolding cap[symmetric] q by auto
  then have "\<forall>c' \<in> set (consumed s @ [c]). cfg_W cfg + length c' < 2 ^ 64"
    using nowrap by blast
  ultimately obtain r' where "data_thread_run (cfg_W cfg) dt0 (consumed s @ [c]) = Inr r'"
    using data_thread_run_spec by blast
  with r0 show ?thesis
    by (cases "data_thread_recv (cfg_W cfg) True dt c") (auto dest: data_thread_run_snoc_Inl)
qed

lemma captured_step: "pipe_step cfg s s' \<Longrightarrow> prefix (captured s) (captured s')"
  by (induction rule: pipe_step.induct) auto

lemma reach_steps: "(pipe_step cfg)\<^sup>*\<^sup>* s s' \<Longrightarrow> reach cfg s \<Longrightarrow> reach cfg s'"
  by (induction rule: rtranclp_induct) (auto intro: reach.step)

lemma panicked_step:
  "pipe_step cfg s s' \<Longrightarrow> (data_th s = Panicked \<longrightarrow> data_th s' = Panicked) \<and>
     (infer_th s = Panicked \<longrightarrow> infer_th s' = Panicked)"
  by (induction rule: pipe_step.induct) auto

lemma panicked_steps:
  "(pipe_step cfg)\<^sup>*\<^sup>* s s' \<Longrightarrow> (data_th s = Panicked \<longrightarrow> data_th s' = Panicked) \<and>
     (infer_th s = Panicked \<longrightarrow> infer_th s' = Panicked)"
  by (induction rule: rtranclp_induct) (auto dest: panicked_step)

lemma returned_exited:
  "pipe_inv cfg s \<Longrightarrow> pc s = Returned \<Longrightarrow> is_exited (data_th s) \<and> is_exited (infer_th s)"
  by (simp add: pipe_inv_def pc_flags_def)

lemma panic_order_step:
  assumes step: "pipe_step cfg s s'" and inv: "pipe_inv cfg s"
    and rs: "cfg_resampler cfg = Some rs" "resampler_wf rs" "rs_channels rs = 1" "rs_frames_in rs = cfg_W cfg"
    and W: "0 < cfg_W cfg"
    and nowrap: "\<forall>c \<in> set (captured s). cfg_W cfg + length c < 2 ^ 64"
    and ord: "data_th s = Panicked \<longrightarrow> infer_th s = Panicked"
  shows "data_th s' = Panicked \<longrightarrow> infer_th s' = Panicked"
  using step inv nowrap ord
proof (induction rule: pipe_step.induct)
  case (data_start_panic s e)
  with W rs(1) data_thread_init_some[OF W, of rs] show ?case by auto
next
  case (data_recv_panic s dt c rest e)
  then have ok: "data_ok cfg s" "history_ok s" "queues_ok s" by (simp_all add: pipe_inv_def)
  from data_recv_total[OF ok(1,2) data_recv_panic.hyps(2,3) rs data_recv_panic.prems(2)]
  obtain r where "data_thread_recv (cfg_W cfg) True dt c = Inr r" by blast
  with data_recv_panic.hyps(4) have "\<not> receiving (infer_th s)" by (cases "receiving (infer_th s)") simp_all
  with ok(3) data_recv_panic.hyps(2) show ?case
    by (cases "infer_th s") (simp_all add: queues_ok_def pipe_simps)
qed simp_all

lemma reach_panic_order:
  assumes "reach cfg s"
    and rs: "cfg_resampler cfg = Some rs" "resampler_wf rs" "rs_channels rs = 1" "rs_frames_in rs = cfg_W cfg"
    and W: "0 < cfg_W cfg"
  shows "(\<forall>c \<in> set (captured s). cfg_W cfg + length c < 2 ^ 64) \<longrightarrow>
           (data_th s = Panicked \<longrightarrow> infer_th s = Panicked)"
  using assms(1)
proof (induction rule: reach.induct)
  case start
  then show ?case by (simp add: pipeline_start_def)
next
  case (step s s')
  show ?case
  proof
    assume nw: "\<forall>c \<in> set (captured s'). cfg_W cfg + length c < 2 ^ 64"
    have "set (captured s) \<subseteq> set (captured s')"
      using captured_step[OF step.hyps(2)] by (auto dest: set_mono_prefix)
    with nw have "\<forall>c \<in> set (captured s). cfg_W cfg + length c < 2 ^ 64" by blast
    with step.IH show "data_th s' = Panicked \<longrightarrow> infer_th s' = Panicked"
      using panic_order_step[OF step.hyps(2) reach_inv[OF step.hyps(1)] rs W] by blast
  qed
qed

subsection \<open>Progress and termination\<close>

lemma pipe_step_alive: "pipe_step cfg s s' \<Longrightarrow> process_alive s"
  by (induction rule: pipe_step.induct) (simp_all add: process_alive_def)

lemma data_can_step:
  assumes alive: "process_alive s" and rcv: "receiving (data_th s)"
    and closed: "queue_a s = [] \<Longrightarrow> \<not> a_senders_live s"
  shows "\<exists>s'. pipe_step cfg s s'"
proof (cases "data_th s")
  case Spawned
  with alive show ?thesis
    by (cases "data_thread_init (cfg_W cfg) (cfg_resampler cfg)")
       (blast intro: pipe_step.data_start pipe_step.data_start_panic)+
next
  case (Running dt)
  show ?thesis
  proof (cases "queue_a s")
    case Nil
    with Running alive closed show ?thesis by (blast intro: pipe_step.data_exit)
  next
    case (Cons c rest)
    show ?thesis
    proof (cases "data_thread_recv (cfg_W cfg) (receiving (infer_th s)) dt c")
      case (Inl e)
      with Running Cons alive show ?thesis by (blast intro: pipe_step.data_recv_panic)
    next
      case (Inr r)
      with Running Cons alive show ?thesis by (cases r) (blast intro: pipe_step.data_recv)
    qed
  qed
qed (use rcv in \<open>simp_all add: receiving_def\<close>)

lemma infer_can_step:
  assumes alive: "process_alive s" and rcv: "receiving (infer_th s)"
    and closed: "queue_b s = [] \<Longrightarrow> \<not> b_senders_live s"
  shows "\<exists>s'. pipe_step cfg s s'"
proof (cases "infer_th s")
  case Spawned
  with alive show ?thesis
    by (cases "inference_thread_init (cfg_opt cfg) True [] True")
       (blast intro: pipe_step.infer_start pipe_step.infer_start_panic)+
next
  case (Running st)
  show ?thesis
  proof (cases "queue_b s")
    case Nil
    with Running alive closed show ?thesis by (blast intro: pipe_step.infer_exit)
  next
    case (Cons w rest)
    with Running alive show ?thesis
      by (cases "process_window (cfg_model cfg) (code_phrase (cfg_opt cfg)) (cfg_clock cfg) True st w")
         (blast intro: pipe_step.infer_recv pipe_step.infer_recv_panic)+
  qed
qed (use rcv in \<open>simp_all add: receiving_def\<close>)

lemma pipe_progress:
  assumes "reach cfg s" and alive: "process_alive s"
  shows "\<exists>s'. pipe_step cfg s s'"
proof -
  have fl: "pc_flags s" using reach_inv[OF assms(1)] by (simp add: pipe_inv_def)
  show ?thesis
  proof (cases "pc s")
    case JoinData
    have closed: "\<not> a_senders_live s" using fl JoinData by (simp add: pc_flags_def pipe_simps)
    show ?thesis
    proof (cases "data_th s")
      case (Exited dt)
      with JoinData show ?thesis by (blast intro: pipe_step.join_data)
    next
      case Panicked
      with JoinData show ?thesis by (blast intro: pipe_step.join_data_panic)
    next
      case Spawned
      then have "receiving (data_th s)" by (simp add: receiving_def)
      from data_can_step[OF alive this] closed show ?thesis by blast
    next
      case (Running dt)
      then have "receiving (data_th s)" by (simp add: receiving_def)
      from data_can_step[OF alive this] closed show ?thesis by blast
    qed
  next
    case JoinInference
    have closed: "\<not> b_senders_live s" using fl JoinInference
      by (simp add: pc_flags_def pipe_simps split: thread.splits)
    show ?thesis
    proof (cases "infer_th s")
      case (Exited st)
      with JoinInference show ?thesis by (blast intro: pipe_step.join_inference)
    next
      case Panicked
      with JoinInference show ?thesis by (blast intro: pipe_step.join_inference_panic)
    next
      case Spawned
      then have "receiving (infer_th s)" by (simp add: receiving_def)
      from infer_can_step[OF alive this] closed show ?thesis by blast
    next
      case (Running st)
      then have "receiving (infer_th s)" by (simp add: receiving_def)
      from infer_can_step[OF alive this] closed show ?thesis by blast
    qed
  next
    case WaitStdin
    then show ?thesis by (blast intro: pipe_step.read_line)
  next
    case DropStream
    then show ?thesis by (blast intro: pipe_step.drop_stream)
  next
    case DropAudioTx
    then show ?thesis by (blast intro: pipe_step.drop_audio_tx)
  next
    case DropInferenceTx
    then show ?thesis by (blast intro: pipe_step.drop_inference_tx)
  qed (use alive in \<open>simp_all add: process_alive_def\<close>)
qed

lemma shutdown_measure_step:
  "pipe_step cfg s s' \<Longrightarrow> \<not> stream_live s \<Longrightarrow> shutdown_measure s' < shutdown_measure s"
  by (induction rule: pipe_step.induct) (auto simp: shutdown_measure_def option_list_def split: option.splits)

lemma stream_dead_step: "pipe_step cfg s s' \<Longrightarrow> \<not> stream_live s \<Longrightarrow> \<not> stream_live s'"
  by (induction rule: pipe_step.induct) simp_all

lemma ends_after_drop:
  "reach cfg s \<Longrightarrow> \<not> stream_live s \<Longrightarrow> \<exists>s'. (pipe_step cfg)\<^sup>*\<^sup>* s s' \<and> \<not> process_alive s'"
proof (induction "shutdown_measure s" arbitrary: s rule: less_induct)
  case less
  show ?case
  proof (cases "process_alive s")
    case True
    then obtain s' where st: "pipe_step cfg s s'" using pipe_progress less.prems(1) by blast
    have "reach cfg s'" "\<not> stream_live s'"
      using less.prems st stream_dead_step[OF st less.prems(2)] by (auto intro: reach.step)
    with less.hyps[OF shutdown_measure_step[OF st less.prems(2)]] obtain t
      where "(pipe_step cfg)\<^sup>*\<^sup>* s' t" "\<not> process_alive t" by blast
    with st show ?thesis by (meson converse_rtranclp_into_rtranclp)
  qed blast
qed

subsection \<open>The log written over a run\<close>

lemma log_spec_snoc:
  "log_spec clock model n ws = Some ls \<Longrightarrow> window_log clock model (n + length ls) w = Some ls' \<Longrightarrow>
     log_spec clock model n (ws @ [w]) = Some (ls @ ls')"
proof (induction ws arbitrary: n ls)
  case (Cons v ws)
  then obtain l0 l1 where v: "window_log clock model n v = Some l0"
    and r: "log_spec clock model (n + length l0) ws = Some l1" and ls: "ls = l0 @ l1"
    by (auto split: option.splits)
  have "window_log clock model (n + length l0 + length l1) w = Some ls'"
    using Cons.prems(2) ls by (simp add: add.assoc)
  from Cons.IH[OF r this] v ls show ?case by simp
qed simp

lemma process_window_log:
  assumes p: "process_window model phrase clock ok st w = Inr st'" and f: "disp_log st = Some f"
  shows "\<exists>ls. window_log clock model (length (log_lines f)) w = Some ls \<and>
           disp_log st' = Some (f\<lparr>log_lines := log_lines f @ ls\<rparr>)"
proof -
  from process_window_Inr[OF p] obtain segs lf c where m: "model w = Segments segs"
    and sl: "segment_loop clock (Some f) [] segs = Inr (lf, c)" and lf: "disp_log st' = lf"
    using f by (auto split: if_splits)
  from segment_loop_log_Inr[OF sl] m lf show ?thesis by (auto simp: window_log_def)
qed

lemma process_window_nolog:
  assumes p: "process_window model phrase clock ok st w = Inr st'" and n: "disp_log st = None"
  shows "disp_log st' = None"
proof -
  from process_window_Inr[OF p] obtain segs lf c where
    sl: "segment_loop clock None [] segs = Inr (lf, c)" and lf: "disp_log st' = lf"
    using n by (auto split: if_splits)
  from sl lf show ?thesis by (simp add: segment_loop_nolog split: option.splits)
qed

lemma log_matches_recv:
  assumes ok: "log_matches cfg st ws"
    and p: "process_window (cfg_model cfg) phrase (cfg_clock cfg) pipe_ok st w = Inr st'"
  shows "log_matches cfg st' (ws @ [w])"
proof (cases "disp_log st")
  case None
  with process_window_nolog[OF p] show ?thesis by (simp add: log_matches_def)
next
  case (Some f)
  with ok obtain n where n: "n \<le> length (log_lines f)"
    and sp: "log_spec (cfg_clock cfg) (cfg_model cfg) n ws = Some (drop n (log_lines f))"
    by (auto simp: log_matches_def)
  from process_window_log[OF p Some] obtain ls where
    wl: "window_log (cfg_clock cfg) (cfg_model cfg) (length (log_lines f)) w = Some ls"
    and f': "disp_log st' = Some (f\<lparr>log_lines := log_lines f @ ls\<rparr>)" by blast
  have "n + length (drop n (log_lines f)) = length (log_lines f)" using n by simp
  with log_spec_snoc[OF sp] wl have
    "log_spec (cfg_clock cfg) (cfg_model cfg) n (ws @ [w]) = Some (drop n (log_lines f) @ ls)" by simp
  moreover have "drop n (log_lines f @ ls) = drop n (log_lines f) @ ls" using n by simp
  ultimately have "log_spec (cfg_clock cfg) (cfg_model cfg) n (ws @ [w]) =
      Some (drop n (log_lines (f\<lparr>log_lines := log_lines f @ ls\<rparr>)))" by simp
  moreover have "n \<le> length (log_lines (f\<lparr>log_lines := log_lines f @ ls\<rparr>))" using n by simp
  ultimately show ?thesis using f' unfolding log_matches_def by (simp only: option.case) blast
qed

lemma inference_thread_init_log:
  "inference_thread_init o' ok ls m = Inr st \<Longrightarrow> log_matches cfg st []"
  by (auto simp: inference_thread_init_def log_matches_def split: option.splits if_splits)

lemma log_step: "pipe_step cfg s s' \<Longrightarrow> history_ok s \<Longrightarrow> log_ok cfg s \<Longrightarrow> log_ok cfg s'"
proof (induction rule: pipe_step.induct)
  case (infer_start s open_ok old_lines model_ok st)
  then show ?case by (simp add: log_ok_def history_ok_def inference_thread_init_log)
next
  case (infer_recv s st w rest pipe_ok st')
  then show ?case by (simp add: log_ok_def log_matches_recv)
qed (simp_all add: log_ok_def split: thread.splits)

lemma reach_log: "reach cfg s \<Longrightarrow> log_ok cfg s"
proof (induction rule: reach.induct)
  case start
  then show ?case by (simp add: log_ok_def pipeline_start_def)
next
  case (step s s')
  have "history_ok s" using reach_inv[OF step.hyps(1)] by (simp add: pipe_inv_def)
  from log_step[OF step.hyps(2) this step.IH] show ?case .
qed

subsection \<open>The sample runs\<close>

lemma reach_step_eq: "reach cfg s \<Longrightarrow> pipe_step cfg s s' \<Longrightarrow> s' = t \<Longrightarrow> reach cfg t"
  by (blast intro: reach.step)

lemmas demo_simps = demo_cfg_def demo_resampler_def demo_disp_def pipeline_start_def pipe_simps
  data_thread_init_def ring_new_def data_thread_recv_def accumulate_def ring_push_def ring_to_vec_def
  resampler_process_def inference_thread_init_def default_opt_def process_window_def
  code_phrase_matches_def buffer_stereo_data_def convert_stereo_to_mono_audio_def Let_def
  to_lowercase_def

text \<open>The run of \<open>demo_returned\<close> for any configuration with the sample window and
  resampler whose inference thread starts and transcribes the window \<open>[2]\<close>.\<close>

lemma one_frame_run_reach:
  fixes cfg :: "(rat, unit) pipe_cfg"
  assumes W: "cfg_W cfg = 2" and rs: "cfg_resampler cfg = Some demo_resampler"
    and i: "inference_thread_init (cfg_opt cfg) True old True = Inr st0"
    and p: "process_window (cfg_model cfg) (code_phrase (cfg_opt cfg)) (cfg_clock cfg) True st0 [2] = Inr st1"
  shows "reach cfg (demo_returned\<lparr>infer_th := Exited st1\<rparr>)"
proof -
  let ?dt0 = "\<lparr>buffer = \<lparr>ring_cap = 2, ring_buf = []\<rparr>, sample_count = 0, resampler = demo_resampler\<rparr>"
  let ?dt1 = "\<lparr>buffer = \<lparr>ring_cap = 2, ring_buf = [2, 4]\<rparr>, sample_count = 0, resampler = demo_resampler\<rparr>"
  let ?s2 = "pipeline_start\<lparr>data_th := Running ?dt0, infer_th := Running st0\<rparr>"
  let ?s3 = "?s2\<lparr>queue_a := [[2, 4]], captured := [[2, 4]]\<rparr>"
  let ?s4 = "?s3\<lparr>data_th := Running ?dt1, queue_a := [], consumed := [[2, 4]], queue_b := [[2]],
                  emitted := [[2]]\<rparr>"
  let ?s5 = "?s4\<lparr>infer_th := Running st1, queue_b := [], delivered := [[2]]\<rparr>"
  let ?s9 = "?s5\<lparr>pc := JoinData, stream_live := False, audio_tx_live := False, inference_tx_live := False\<rparr>"
  have r1: "reach cfg (pipeline_start\<lparr>data_th := Running ?dt0\<rparr>)"
    by (rule reach_step_eq[OF reach.start pipe_step.data_start]) (simp_all add: W rs demo_simps)
  have r2: "reach cfg ?s2"
    by (rule reach_step_eq[OF r1 pipe_step.infer_start[OF _ _ i]]) (simp_all add: demo_simps)
  have r3: "reach cfg ?s3"
    by (rule reach_step_eq[OF r2 pipe_step.capture[where input = "[1, 3, 2, 6]"]])
       (simp_all add: demo_simps)
  have r4: "reach cfg ?s4"
    by (rule reach_step_eq[OF r3 pipe_step.data_recv[where dt = ?dt0 and c = "[2, 4]" and rest = "[]"
          and dt' = ?dt1 and out = "Some [2]"]])
       (simp_all add: W demo_simps model_evals)
  have r5: "reach cfg ?s5"
    by (rule reach_step_eq[OF r4 pipe_step.infer_recv[OF _ _ _ p]]) (simp_all add: demo_simps)
  have r6: "reach cfg (?s5\<lparr>pc := DropStream\<rparr>)"
    by (rule reach_step_eq[OF r5 pipe_step.read_line]) (simp_all add: demo_simps)
  have r7: "reach cfg (?s5\<lparr>pc := DropAudioTx, stream_live := False\<rparr>)"
    by (rule reach_step_eq[OF r6 pipe_step.drop_stream]) simp_all
  have r8: "reach cfg (?s5\<lparr>pc := DropInferenceTx, stream_live := False, audio_tx_live := False\<rparr>)"
    by (rule reach_step_eq[OF r7 pipe_step.drop_audio_tx]) simp_all
  have r9: "reach cfg ?s9"
    by (rule reach_step_eq[OF r8 pipe_step.drop_inference_tx]) simp_all
  have r10: "reach cfg (?s9\<lparr>data_th := Exited ?dt1\<rparr>)"
    by (rule reach_step_eq[OF r9 pipe_step.data_exit]) (simp_all add: demo_simps)
  have r11: "reach cfg (?s9\<lparr>data_th := Exited ?dt1, infer_th := Exited st1\<rparr>)"
    by (rule reach_step_eq[OF r10 pipe_step.infer_exit]) (simp_all add: demo_simps)
  have r12: "reach cfg (?s9\<lparr>pc := JoinInference, data_th := Exited ?dt1, infer_th := Exited st1\<rparr>)"
    by (rule reach_step_eq[OF r11 pipe_step.join_data]) simp_all
  show ?thesis
    by (rule reach_step_eq[OF r12 pipe_step.join_inference]) (simp_all add: demo_returned_def pipeline_start_def)
qed

lemma demo_reach_returned: "reach demo_cfg demo_returned"
proof -
  have "inference_thread_init (cfg_opt demo_cfg) True [] True = Inr demo_disp"
    by (simp add: demo_simps)
  moreover have "process_window (cfg_model demo_cfg) (code_phrase (cfg_opt demo_cfg)) (cfg_clock demo_cfg)
                   True demo_disp [2] = Inr demo_disp"
    by (simp add: demo_simps char_eval)
  ultimately have "reach demo_cfg (demo_returned\<lparr>infer_th := Exited demo_disp\<rparr>)"
    by (rule one_frame_run_reach[rotated 2]) (simp_all add: demo_cfg_def)
  then show ?thesis by (simp add: demo_returned_def)
qed

lemma demo_log_reach: "reach demo_log_cfg (demo_returned\<lparr>infer_th := Exited demo_log_disp\<rparr>)"
proof -
  let ?st0 = "\<lparr>disp_log = Some \<lparr>log_lines = [''old''], log_writable = True\<rparr>, disp_kills = 0, disp_stderr = []\<rparr>"
  have "inference_thread_init (cfg_opt demo_log_cfg) True [''old''] True = Inr ?st0"
    by (simp add: demo_log_cfg_def demo_simps)
  moreover have "process_window (cfg_model demo_log_cfg) (code_phrase (cfg_opt demo_log_cfg))
                   (cfg_clock demo_log_cfg) True ?st0 [2] = Inr demo_log_disp"
    by (simp add: demo_log_cfg_def demo_log_disp_def demo_simps format_log_line_def int_to_string_def
                  lower_char_def char_eval model_evals)
  ultimately show ?thesis
    by (rule one_frame_run_reach[rotated 2]) (simp_all add: demo_log_cfg_def demo_cfg_def)
qed

lemma demo_reach_infer_panic: "reach demo_cfg demo_infer_panic"
proof -
  let ?dt0 = "\<lparr>buffer = \<lparr>ring_cap = 2, ring_buf = []\<rparr>, sample_count = 0, resampler = demo_resampler\<rparr>"
  let ?s2 = "pipeline_start\<lparr>data_th := Running ?dt0, infer_th := Panicked, queue_b := []\<rparr>"
  have r1: "reach demo_cfg (pipeline_start\<lparr>data_th := Running ?dt0\<rparr>)"
    by (rule reach_step_eq[OF reach.start pipe_step.data_start]) (simp_all add: demo_simps)
  have r2: "reach demo_cfg ?s2"
    by (rule reach_step_eq[OF r1 pipe_step.infer_start_panic[where open_ok = True and old_lines = "[]"
          and model_ok = False]]) (simp_all add: demo_simps)
  have r3: "reach demo_cfg (?s2\<lparr>queue_a := [[2, 4]], captured := [[2, 4]]\<rparr>)"
    by (rule reach_step_eq[OF r2 pipe_step.capture[where input = "[1, 3, 2, 6]"]])
       (simp_all add: demo_simps)
  show ?thesis
    by (rule reach_step_eq[OF r3 pipe_step.data_recv_panic[where dt = ?dt0 and c = "[2, 4]" and rest = "[]"
          and e = InferenceSendFailed]]) (simp_all add: demo_simps model_evals demo_infer_panic_def)
qed

lemma demo_resampler_contract:
  "resampler_wf demo_resampler \<and> rs_channels demo_resampler = 1 \<and> rs_frames_in demo_resampler = 2"
  by (simp add: demo_resampler_def resampler_wf_def)


text \<open>A run without audio: both threads start, the user presses Enter at once, and the
  shutdown completes.\<close>

lemma quiet_run_reach:
  assumes d: "data_thread_init (cfg_W cfg) (cfg_resampler cfg) = Inr dt"
    and i: "inference_thread_init (cfg_opt cfg) True [] True = Inr st"
  shows "reach cfg (pipeline_start\<lparr>pc := Returned, stream_live := False, audio_tx_live := False,
                      inference_tx_live := False, data_th := Exited dt, infer_th := Exited st\<rparr>)"
proof -
  let ?s2 = "pipeline_start\<lparr>data_th := Running dt, infer_th := Running st\<rparr>"
  let ?s6 = "?s2\<lparr>pc := JoinData, stream_live := False, audio_tx_live := False, inference_tx_live := False\<rparr>"
  have r1: "reach cfg (pipeline_start\<lparr>data_th := Running dt\<rparr>)"
    by (rule reach_step_eq[OF reach.start pipe_step.data_start[OF _ _ d]]) (simp_all add: pipeline_start_def pipe_simps)
  have r2: "reach cfg ?s2"
    by (rule reach_step_eq[OF r1 pipe_step.infer_start[OF _ _ i]]) (simp_all add: pipeline_start_def pipe_simps)
  have r3: "reach cfg (?s2\<lparr>pc := DropStream\<rparr>)"
    by (rule reach_step_eq[OF r2 pipe_step.read_line]) (simp_all add: pipeline_start_def)
  have r4: "reach cfg (?s2\<lparr>pc := DropAudioTx, stream_live := False\<rparr>)"
    by (rule reach_step_eq[OF r3 pipe_step.drop_stream]) simp_all
  have r5: "reach cfg (?s2\<lparr>pc := DropInferenceTx, stream_live := False, audio_tx_live := False\<rparr>)"
    by (rule reach_step_eq[OF r4 pipe_step.drop_audio_tx]) simp_all
  have r6: "reach cfg ?s6"
    by (rule reach_step_eq[OF r5 pipe_step.drop_inference_tx]) simp_all
  have r7: "reach cfg (?s6\<lparr>data_th := Exited dt\<rparr>)"
    by (rule reach_step_eq[OF r6 pipe_step.data_exit]) (simp_all add: pipeline_start_def pipe_simps)
  have r8: "reach cfg (?s6\<lparr>data_th := Exited dt, infer_th := Exited st\<rparr>)"
    by (rule reach_step_eq[OF r7 pipe_step.infer_exit]) (simp_all add: pipeline_start_def pipe_simps)
  have r9: "reach cfg (?s6\<lparr>pc := JoinInference, data_th := Exited dt, infer_th := Exited st\<rparr>)"
    by (rule reach_step_eq[OF r8 pipe_step.join_data]) simp_all
  show ?thesis
    by (rule reach_step_eq[OF r9 pipe_step.join_inference]) (simp_all add: pipeline_start_def)
qed

subsection \<open>Shape of the windows and the kill count\<close>

lemma expected_windows_lengths:
  assumes "resampler_wf rs" "rs_channels rs = 1" and "w \<in> set (expected_windows (rs_frames_in rs) rs cs)"
  shows "length w = rs_frames_out rs"
proof -
  have "\<forall>v \<in> set (windows_spec (rs_frames_in rs) 0 [] cs). length v = rs_frames_in rs"
    by (auto intro: windows_spec_length[of 0 "[]"])
  from resample_windows_lengths[OF assms(1,2) this, of "rs_state rs"] assms(3) show ?thesis
    by (simp add: expected_windows_def)
qed

lemma shape_step:
  assumes step: "pipe_step cfg s s'" and inv': "pipe_inv cfg s'"
    and rs: "cfg_resampler cfg = Some rs" "resampler_wf rs" "rs_channels rs = 1" "rs_frames_in rs = cfg_W cfg"
    and nowrap: "\<forall>c \<in> set (captured s'). cfg_W cfg + length c < 2 ^ 64"
    and sh: "shape_ok (rs_frames_out rs) s"
  shows "shape_ok (rs_frames_out rs) s'"
  using step sh inv' nowrap
proof (induction rule: pipe_step.induct)
  case (data_recv s dt c rest dt' out)
  let ?t = "s\<lparr>data_th := Running dt', queue_a := rest, consumed := consumed s @ [c],
              queue_b := queue_b s @ option_list out, emitted := emitted s @ option_list out\<rparr>"
  have ok: "data_ok cfg ?t" "history_ok ?t" using data_recv.prems(2) by (simp_all add: pipe_inv_def)
  then have "consumed ?t @ queue_a ?t = captured ?t" by (simp add: history_ok_def)
  then have "set (consumed ?t) \<subseteq> set (captured ?t)" by (metis set_append Un_upper1)
  with data_recv.prems(3) have nw: "\<forall>c \<in> set (consumed ?t). cfg_W cfg + length c < 2 ^ 64" by blast
  have "emitted ?t = expected_windows (cfg_W cfg) rs (consumed ?t)"
    by (rule data_ok_emitted[OF ok _ rs nw]) simp
  then have e: "\<forall>w \<in> set (emitted ?t). length w = rs_frames_out rs"
    using expected_windows_lengths[OF rs(2,3)] rs(4) by metis
  with data_recv.prems(1) show ?case by (auto simp: shape_ok_def)
qed (auto simp: shape_ok_def)

lemma reach_shape:
  assumes "reach cfg s"
    and rs: "cfg_resampler cfg = Some rs" "resampler_wf rs" "rs_channels rs = 1" "rs_frames_in rs = cfg_W cfg"
  shows "(\<forall>c \<in> set (captured s). cfg_W cfg + length c < 2 ^ 64) \<longrightarrow> shape_ok (rs_frames_out rs) s"
  using assms(1)
proof (induction rule: reach.induct)
  case start
  then show ?case by (simp add: pipeline_start_def shape_ok_def)
next
  case (step s s')
  show ?case
  proof
    assume nw: "\<forall>c \<in> set (captured s'). cfg_W cfg + length c < 2 ^ 64"
    have "set (captured s) \<subseteq> set (captured s')"
      using captured_step[OF step.hyps(2)] by (auto dest: set_mono_prefix)
    with nw step.IH have "shape_ok (rs_frames_out rs) s" by blast
    from shape_step[OF step.hyps(2) reach_inv[OF reach.step[OF step.hyps]] rs nw this] show
      "shape_ok (rs_frames_out rs) s'" .
  qed
qed

lemma inference_thread_init_kills: "inference_thread_init o' ok ls m = Inr st \<Longrightarrow> disp_kills st = 0"
  by (auto simp: inference_thread_init_def split: option.splits if_splits)





lemma inference_thread_init_stderr: "inference_thread_init o' ok ls m = Inr st \<Longrightarrow> disp_stderr st = []"
  by (auto simp: inference_thread_init_def split: option.splits if_splits)

lemma process_window_triggers:
  assumes "process_window model phrase clock ok st w = Inr st'"
  shows "disp_kills st' + length (disp_stderr st') =
           disp_kills st + length (disp_stderr st) + (if window_triggers model phrase w then 1 else 0)"
proof -
  obtain segs lf c where m: "model w = Segments segs"
    and sl: "segment_loop clock (disp_log st) [] segs = Inr (lf, c)"
    and st': "st' = (if code_phrase_matches c phrase then run_kill_pipeline ok (st\<lparr>disp_log := lf\<rparr>)
                     else st\<lparr>disp_log := lf\<rparr>)"
    using process_window_Inr[OF assms] by blast
  obtain texts where t: "those (map seg_text segs) = Some texts" "c = concat texts"
  proof (cases "disp_log st")
    case None
    with sl that show ?thesis by (auto simp: segment_loop_nolog split: option.splits)
  next
    case (Some f)
    with sl that show ?thesis by (auto dest: segment_loop_log_Inr)
  qed
  then have "window_triggers model phrase w = code_phrase_matches c phrase"
    using m by (simp add: window_triggers_def)
  with st' show ?thesis by (simp add: run_kill_pipeline_def)
qed

lemma trigger_step: "pipe_step cfg s s' \<Longrightarrow> history_ok s \<Longrightarrow> trigger_ok cfg s \<Longrightarrow> trigger_ok cfg s'"
proof (induction rule: pipe_step.induct)
  case (infer_start s open_ok old_lines model_ok st)
  then show ?case
    by (simp add: trigger_ok_def history_ok_def inference_thread_init_kills inference_thread_init_stderr)
next
  case (infer_recv s st w rest pipe_ok st')
  then show ?case using process_window_triggers[OF infer_recv.hyps(4)] by (simp add: trigger_ok_def)
qed (simp_all add: trigger_ok_def split: thread.splits)

lemma reach_trigger: "reach cfg s \<Longrightarrow> trigger_ok cfg s"
proof (induction rule: reach.induct)
  case start
  then show ?case by (simp add: trigger_ok_def pipeline_start_def)
next
  case (step s s')
  have "history_ok s" using reach_inv[OF step.hyps(1)] by (simp add: pipe_inv_def)
  from trigger_step[OF step.hyps(2) this step.IH] show ?case .
qed

lemma infer_panicked_step:
  "pipe_step cfg s s' \<Longrightarrow> infer_th s = Panicked \<Longrightarrow>
     infer_th s' = Panicked \<and> emitted s' = emitted s \<and> delivered s' = delivered s"
proof (induction rule: pipe_step.induct)
  case (data_recv s dt c rest dt' out)
  then have "out = None" by (simp add: receiving_def data_thread_recv_dead)
  with data_recv show ?case by (simp add: option_list_def)
qed simp_all

lemma infer_panicked_steps:
  assumes run: "(pipe_step cfg)\<^sup>*\<^sup>* s s'" and p: "infer_th s = Panicked"
  shows "infer_th s' = Panicked \<and> emitted s' = emitted s \<and> delivered s' = delivered s"
  using run
proof (induction rule: rtranclp_induct)
  case (step t u)
  with p infer_panicked_step[OF step.hyps(2)] show ?case by simp
qed (simp add: p)



lemma stopped_steps:
  "(pipe_step cfg)\<^sup>*\<^sup>* s s' \<Longrightarrow> \<not> stream_live s \<Longrightarrow>
     captured s' = captured s \<and> callback_dead s' = callback_dead s \<and> \<not> stream_live s'"
proof (induction rule: rtranclp_induct)
  case (step t u)
  then have "\<not> stream_live t" "captured t = captured s" "callback_dead t = callback_dead s" by simp_all
  with step.hyps(2) show ?case
    by (induction rule: pipe_step.induct) simp_all
qed simp

lemma dead_process_steps: "(pipe_step cfg)\<^sup>*\<^sup>* s s' \<Longrightarrow> \<not> process_alive s \<Longrightarrow> s' = s"
  by (induction rule: converse_rtranclp_induct) (auto dest: pipe_step_alive)

lemma stop_flags:
  assumes "reach cfg s" "pc s \<noteq> WaitStdin" "pc s \<noteq> DropStream"
  shows "\<not> stream_live s \<or> \<not> process_alive s"
  using reach_inv[OF assms(1)] assms(2,3)
  by (cases "pc s") (simp_all add: pipe_inv_def pc_flags_def process_alive_def)

lemma returned_delivers_all:
  assumes r: "reach cfg s" and ret: "pc s = Returned"
    and rs: "cfg_resampler cfg = Some rs" "resampler_wf rs" "rs_channels rs = 1" "rs_frames_in rs = cfg_W cfg"
    and nowrap: "\<forall>c \<in> set (captured s). cfg_W cfg + length c < 2 ^ 64"
  shows "delivered s = expected_windows (cfg_W cfg) rs (captured s) \<and> queue_a s = [] \<and> queue_b s = []"
proof -
  have inv: "pipe_inv cfg s" by (rule reach_inv[OF r])
  then have ok: "pc_flags s" "queues_ok s" "history_ok s" "data_ok cfg s" by (simp_all add: pipe_inv_def)
  from returned_exited[OF inv ret] obtain dt st where ex: "data_th s = Exited dt" "infer_th s = Exited st"
    by (auto simp: is_exited_def split: thread.splits)
  with ok(2,3) have q: "queue_a s = []" "queue_b s = []" "consumed s = captured s" "delivered s = emitted s"
    by (simp_all add: queues_ok_def history_ok_def receiving_def)
  from data_ok_emitted[OF ok(4,3) _ rs] ex(1) q(3) nowrap
  have "emitted s = expected_windows (cfg_W cfg) rs (captured s)" by simp
  with q show ?thesis by simp
qed

subsection \<open>Properties of the lifecycle\<close>

text \<open>C20. End to end: when \<open>main\<close> returns \<open>Ok(())\<close>, both queues are empty and the
  inference thread has received exactly the windows the abstract specification assigns to
  all the audio the callback captured, resampled in order; nothing is lost at shutdown.\<close>

theorem pipeline_end_to_end:
  assumes r: "reach cfg s" and ret: "pc s = Returned"
    and rs: "cfg_resampler cfg = Some rs" "resampler_wf rs" "rs_channels rs = 1" "rs_frames_in rs = cfg_W cfg"
    and nowrap: "\<forall>c \<in> set (captured s). cfg_W cfg + length c < 2 ^ 64"
  shows "delivered s = expected_windows (cfg_W cfg) rs (captured s) \<and> queue_a s = [] \<and> queue_b s = []"
  using returned_delivers_all[OF r ret rs nowrap] .

theorem pipeline_end_to_end_witness:
  "reach demo_cfg demo_returned \<and> pc demo_returned = Returned \<and> resampler_wf demo_resampler \<and>
   2 + length [2, 4 :: rat] < 2 ^ 64 \<and>
   delivered demo_returned = expected_windows 2 demo_resampler [[2, 4]] \<and>
   expected_windows 2 demo_resampler [[2, 4]] = [[2]]"
proof -
  have c: "cfg_resampler demo_cfg = Some demo_resampler" "cfg_W demo_cfg = 2"
    by (simp_all add: demo_cfg_def)
  have "delivered demo_returned = expected_windows 2 demo_resampler (captured demo_returned)"
    using pipeline_end_to_end[OF demo_reach_returned _ c(1)] demo_resampler_contract c(2)
    by (simp add: demo_returned_def)
  moreover have "expected_windows 2 demo_resampler [[2, 4]] = [[2 :: rat]]"
    by (simp add: expected_windows_def demo_resampler_def lastn_def)
  ultimately show ?thesis using demo_reach_returned demo_resampler_contract
    by (simp add: demo_returned_def)
qed

text \<open>C21. The two channels are FIFO and lose nothing while neither thread has panicked:
  the chunks the data thread took off the audio channel followed by those still queued are
  all the chunks captured, and the windows the inference thread took off its channel
  followed by those still queued are the specification's windows of the chunks consumed;
  so what the inference thread has seen is always a prefix of the specification's output
  for all the audio captured.\<close>

theorem pipeline_fifo:
  assumes r: "reach cfg s" and np: "data_th s \<noteq> Panicked" "infer_th s \<noteq> Panicked"
    and rs: "cfg_resampler cfg = Some rs" "resampler_wf rs" "rs_channels rs = 1" "rs_frames_in rs = cfg_W cfg"
    and nowrap: "\<forall>c \<in> set (captured s). cfg_W cfg + length c < 2 ^ 64"
  shows "consumed s @ queue_a s = captured s \<and>
         delivered s @ queue_b s = expected_windows (cfg_W cfg) rs (consumed s) \<and>
         prefix (delivered s) (expected_windows (cfg_W cfg) rs (captured s))"
proof -
  have ok: "history_ok s" "data_ok cfg s" using reach_inv[OF r] by (simp_all add: pipe_inv_def)
  with np have h: "consumed s @ queue_a s = captured s" "delivered s @ queue_b s = emitted s"
    by (simp_all add: history_ok_def)
  then have "set (consumed s) \<subseteq> set (captured s)" by (metis set_append Un_upper1)
  with nowrap have "\<forall>c \<in> set (consumed s). cfg_W cfg + length c < 2 ^ 64" by blast
  from data_ok_emitted[OF ok(2,1) np(1) rs this] h(2)
  have e: "delivered s @ queue_b s = expected_windows (cfg_W cfg) rs (consumed s)" by simp
  have "prefix (expected_windows (cfg_W cfg) rs (consumed s)) (expected_windows (cfg_W cfg) rs (captured s))"
    by (rule expected_windows_prefix[OF prefixI[OF h(1)[symmetric]]])
  then have "prefix (delivered s) (expected_windows (cfg_W cfg) rs (captured s))"
    unfolding e[symmetric] by (auto simp: prefix_def)
  with h(1) e show ?thesis by simp
qed

theorem pipeline_fifo_witness:
  "reach demo_cfg demo_returned \<and> data_th demo_returned \<noteq> Panicked \<and>
   infer_th demo_returned \<noteq> Panicked \<and> 2 + length [2, 4 :: rat] < 2 ^ 64 \<and>
   prefix (delivered demo_returned) (expected_windows 2 demo_resampler [[2, 4]])"
proof -
  have c: "cfg_resampler demo_cfg = Some demo_resampler" "cfg_W demo_cfg = 2"
    by (simp_all add: demo_cfg_def)
  have np: "data_th demo_returned \<noteq> Panicked" "infer_th demo_returned \<noteq> Panicked"
    by (simp_all add: demo_returned_def)
  have "prefix (delivered demo_returned) (expected_windows 2 demo_resampler (captured demo_returned))"
    using pipeline_fifo[OF demo_reach_returned np c(1)] demo_resampler_contract c(2)
    by (simp add: demo_returned_def)
  then show ?thesis using demo_reach_returned np by (simp add: demo_returned_def)
qed


text \<open>C22. Each thread leaves its receive loop only once its channel is closed and drained:
  the data thread after the stream and \<open>audio_tx\<close> are dropped, having taken every
  captured chunk; the inference thread after \<open>inference_tx\<close> is dropped and the data
  thread has ended (so both senders of its channel are gone), having received every
  window the data thread sent.\<close>

theorem threads_drain_before_exit:
  assumes "reach cfg s"
  shows "(is_exited (data_th s) \<longrightarrow>
            consumed s = captured s \<and> queue_a s = [] \<and> \<not> stream_live s \<and> \<not> audio_tx_live s) \<and>
         (is_exited (infer_th s) \<longrightarrow>
            delivered s = emitted s \<and> queue_b s = [] \<and> \<not> inference_tx_live s \<and> \<not> receiving (data_th s))"
  using reach_inv[OF assms]
  by (auto simp: pipe_inv_def queues_ok_def history_ok_def pipe_simps split: thread.splits)

theorem threads_drain_before_exit_witness:
  "reach demo_cfg demo_returned \<and> is_exited (data_th demo_returned) \<and> is_exited (infer_th demo_returned) \<and>
   consumed demo_returned = captured demo_returned \<and> delivered demo_returned = emitted demo_returned"
proof -
  have ex: "is_exited (data_th demo_returned)" "is_exited (infer_th demo_returned)"
    by (simp_all add: demo_returned_def is_exited_def)
  from threads_drain_before_exit[OF demo_reach_returned] ex demo_reach_returned show ?thesis by simp
qed

text \<open>C23. The log at normal shutdown: when \<open>main\<close> returns \<open>Ok(())\<close> and the inference
  thread kept a log file, the file holds the lines it had when it was opened followed by
  exactly the lines the spec prescribes (one \<open>[time | t0 - t1]: text\<close> line per segment,
  in order) for the spec's resampled windows of all the audio captured.\<close>

theorem inference_log_complete:
  assumes r: "reach cfg s" and ret: "pc s = Returned"
    and rs: "cfg_resampler cfg = Some rs" "resampler_wf rs" "rs_channels rs = 1" "rs_frames_in rs = cfg_W cfg"
    and nowrap: "\<forall>c \<in> set (captured s). cfg_W cfg + length c < 2 ^ 64"
    and log: "infer_th s = Exited st" "disp_log st = Some f"
  shows "\<exists>n \<le> length (log_lines f).
           log_spec (cfg_clock cfg) (cfg_model cfg) n (expected_windows (cfg_W cfg) rs (captured s)) =
             Some (drop n (log_lines f))"
proof -
  have inv: "pipe_inv cfg s" by (rule reach_inv[OF r])
  then have ok: "queues_ok s" "history_ok s" "data_ok cfg s" by (simp_all add: pipe_inv_def)
  from returned_exited[OF inv ret] obtain dt where ex: "data_th s = Exited dt"
    by (auto simp: is_exited_def split: thread.splits)
  with ok(1,2) log(1) have q: "consumed s = captured s" "delivered s = emitted s"
    by (simp_all add: queues_ok_def history_ok_def receiving_def)
  from data_ok_emitted[OF ok(3,2) _ rs] ex q(1) nowrap
  have "delivered s = expected_windows (cfg_W cfg) rs (captured s)" using q(2) by simp
  with reach_log[OF r] log show ?thesis by (simp add: log_ok_def log_matches_def)
qed

theorem inference_log_complete_witness:
  "reach demo_log_cfg (demo_returned\<lparr>infer_th := Exited demo_log_disp\<rparr>) \<and>
   resampler_wf demo_resampler \<and> 2 + length [2, 4 :: rat] < 2 ^ 64 \<and>
   disp_log demo_log_disp = Some \<lparr>log_lines = [''old'', ''[00:00:00 | 0 - 5]:  hi''], log_writable = True\<rparr> \<and>
   (\<exists>n \<le> length [''old'', ''[00:00:00 | 0 - 5]:  hi'']. log_spec (cfg_clock demo_log_cfg) (cfg_model demo_log_cfg) n
                (expected_windows 2 demo_resampler [[2, 4]]) =
              Some (drop n [''old'', ''[00:00:00 | 0 - 5]:  hi'']))"
proof -
  let ?s = "demo_returned\<lparr>infer_th := Exited demo_log_disp\<rparr>"
  have c: "cfg_resampler demo_log_cfg = Some demo_resampler" "cfg_W demo_log_cfg = 2"
    by (simp_all add: demo_log_cfg_def demo_cfg_def)
  have d: "disp_log demo_log_disp = Some \<lparr>log_lines = [''old'', ''[00:00:00 | 0 - 5]:  hi''], log_writable = True\<rparr>"
    by (simp add: demo_log_disp_def)
  have "\<exists>n \<le> length [''old'', ''[00:00:00 | 0 - 5]:  hi''].
          log_spec (cfg_clock demo_log_cfg) (cfg_model demo_log_cfg) n
            (expected_windows (cfg_W demo_log_cfg) demo_resampler (captured ?s)) =
          Some (drop n [''old'', ''[00:00:00 | 0 - 5]:  hi''])"
    using inference_log_complete[OF demo_log_reach _ c(1) _ _ _ _ _ d] demo_resampler_contract c(2)
    by (simp add: demo_returned_def)
  then show ?thesis using demo_log_reach demo_resampler_contract d c(2)
    by (simp add: demo_returned_def)
qed

text \<open>C24. No deadlock: in every reachable state some execution context can take a step
  exactly while the process is alive; once \<open>main\<close> has returned or panicked nothing moves.\<close>

theorem pipeline_step_iff_alive:
  assumes "reach cfg s"
  shows "(\<exists>s'. pipe_step cfg s s') \<longleftrightarrow> process_alive s"
  using pipe_progress[OF assms] pipe_step_alive by blast

theorem pipeline_step_iff_alive_witness:
  "reach demo_cfg demo_returned \<and> \<not> (\<exists>s'. pipe_step demo_cfg demo_returned s') \<and>
   (\<exists>s'. pipe_step demo_cfg pipeline_start s')"
proof -
  have "\<not> process_alive demo_returned" "process_alive (pipeline_start :: (rat, unit) pipeline)"
    by (simp_all add: demo_returned_def pipeline_start_def process_alive_def)
  moreover note pipeline_step_iff_alive[OF demo_reach_returned]
  moreover note pipeline_step_iff_alive[OF reach.start, of demo_cfg]
  ultimately show ?thesis using demo_reach_returned by simp
qed

text \<open>C25. Shutdown terminates: once the stream is dropped (the user pressed Enter), every
  run of the program is finite, whatever the scheduler does.\<close>

theorem pipeline_shutdown_terminates:
  "wf {(s', s). pipe_step cfg s s' \<and> \<not> stream_live s}"
  by (rule wf_subset[OF wf_measure[of shutdown_measure]]) (auto dest: shutdown_measure_step)

text \<open>C26. From every reachable state the program can still end: there is a run on which
  \<open>main\<close> returns or panics (at the latest, the user presses Enter and the shutdown runs).\<close>

theorem pipeline_can_end:
  assumes r: "reach cfg s"
  shows "\<exists>s'. (pipe_step cfg)\<^sup>*\<^sup>* s s' \<and> \<not> process_alive s'"
proof (cases "stream_live s")
  case False
  with ends_after_drop[OF r] show ?thesis by blast
next
  case True
  have fl: "pc_flags s" using reach_inv[OF r] by (simp add: pipe_inv_def)
  obtain s1 where st: "(pipe_step cfg)\<^sup>*\<^sup>* s s1" and d: "\<not> stream_live s1 \<or> \<not> process_alive s1"
  proof (cases "pc s")
    case WaitStdin
    let ?s1 = "s\<lparr>pc := DropStream\<rparr>"
    have a: "pipe_step cfg s ?s1" using WaitStdin by (rule pipe_step.read_line)
    have b: "pipe_step cfg ?s1 (?s1\<lparr>pc := DropAudioTx, stream_live := False\<rparr>)"
      by (rule pipe_step.drop_stream) simp
    from a b have "(pipe_step cfg)\<^sup>*\<^sup>* s (?s1\<lparr>pc := DropAudioTx, stream_live := False\<rparr>)"
      by (rule converse_rtranclp_into_rtranclp[OF _ r_into_rtranclp])
    then show ?thesis by (rule that) simp
  next
    case DropStream
    have "(pipe_step cfg)\<^sup>*\<^sup>* s (s\<lparr>pc := DropAudioTx, stream_live := False\<rparr>)"
      by (rule r_into_rtranclp, rule pipe_step.drop_stream, rule DropStream)
    then show ?thesis by (rule that) simp
  next
    case MainPanicked
    show ?thesis by (rule that[OF rtranclp.rtrancl_refl]) (simp add: process_alive_def MainPanicked)
  qed (use True fl in \<open>simp_all add: pc_flags_def\<close>)
  then show ?thesis
  proof (cases "process_alive s1")
    case True
    with d ends_after_drop[OF reach_steps[OF st r]] st show ?thesis
      by (meson rtranclp_trans)
  qed (use st in blast)
qed

theorem pipeline_can_end_witness:
  "reach demo_cfg pipeline_start \<and> (\<exists>s'. (pipe_step demo_cfg)\<^sup>*\<^sup>* pipeline_start s' \<and> \<not> process_alive s')"
  using pipeline_can_end[OF reach.start] reach.start by blast


text \<open>C27. A panic in either thread means \<open>main\<close> never returns \<open>Ok(())\<close>: from a reachable
  state where the data thread or the inference thread has panicked, no run reaches
  \<open>Returned\<close> (the \<open>join().unwrap()\<close> of that thread panics instead).\<close>

theorem panic_prevents_return:
  assumes r: "reach cfg s" and p: "data_th s = Panicked \<or> infer_th s = Panicked"
    and st: "(pipe_step cfg)\<^sup>*\<^sup>* s s'"
  shows "pc s' \<noteq> Returned"
proof
  assume ret: "pc s' = Returned"
  have "is_exited (data_th s') \<and> is_exited (infer_th s')"
    by (rule returned_exited[OF reach_inv[OF reach_steps[OF st r]] ret])
  with p panicked_steps[OF st] show False by (auto simp: is_exited_def)
qed

theorem panic_prevents_return_witness:
  "reach demo_cfg demo_infer_panic \<and> data_th demo_infer_panic = Panicked \<and>
   pc demo_infer_panic \<noteq> Returned"
proof -
  have p: "data_th demo_infer_panic = Panicked" by (simp add: demo_infer_panic_def)
  from panic_prevents_return[OF demo_reach_infer_panic disjI1[OF p] rtranclp.rtrancl_refl]
    demo_reach_infer_panic p show ?thesis by simp
qed

text \<open>C28. Under the resampler's contract (and a nonzero window) the data thread never
  panics on its own: in every reachable state where it has panicked, the inference thread
  panicked first (the only failure left is \<open>send\<close> to a dead receiver, line 185).\<close>

theorem data_panics_only_after_inference:
  assumes r: "reach cfg s"
    and rs: "cfg_resampler cfg = Some rs" "resampler_wf rs" "rs_channels rs = 1" "rs_frames_in rs = cfg_W cfg"
    and W: "0 < cfg_W cfg"
    and nowrap: "\<forall>c \<in> set (captured s). cfg_W cfg + length c < 2 ^ 64"
    and p: "data_th s = Panicked"
  shows "infer_th s = Panicked"
  using reach_panic_order[OF r rs W] nowrap p by blast

theorem data_panics_only_after_inference_witness:
  "reach demo_cfg demo_infer_panic \<and> resampler_wf demo_resampler \<and> 2 + length [2, 4 :: rat] < 2 ^ 64 \<and>
   data_th demo_infer_panic = Panicked \<and> infer_th demo_infer_panic = Panicked"
proof -
  have c: "cfg_resampler demo_cfg = Some demo_resampler" "cfg_W demo_cfg = 2"
    by (simp_all add: demo_cfg_def)
  have p: "data_th demo_infer_panic = Panicked" by (simp add: demo_infer_panic_def)
  have "infer_th demo_infer_panic = Panicked"
    using data_panics_only_after_inference[OF demo_reach_infer_panic c(1)] demo_resampler_contract c(2) p
    by (simp add: demo_infer_panic_def)
  with demo_reach_infer_panic demo_resampler_contract p show ?thesis by simp
qed


text \<open>C29. A model that fails to load does not stop the program at start-up (spec
  section 7 wants a configuration error before the pipeline starts): for any
  configuration, when \<open>WhisperContext::new_with_params\<close> fails (line 92) the inference
  thread panics while \<open>main\<close> keeps waiting for Enter with the stream playing. From any
  reachable state where the inference thread has panicked, on every run no window is sent
  or received any more (the data thread's \<open>send\<close> to the dead receiver panics instead,
  line 185) and \<open>main\<close> never returns \<open>Ok\<close>: the failure surfaces only at \<open>join\<close>.\<close>

theorem model_failure_keeps_running:
  fixes cfg :: "('a::field, 's) pipe_cfg"
  assumes fail: "inference_thread_init (cfg_opt cfg) open_ok old_lines False = Inl e"
  shows "reach cfg (pipeline_start\<lparr>infer_th := Panicked\<rparr>) \<and>
         pc (pipeline_start\<lparr>infer_th := Panicked\<rparr> :: ('a, 's) pipeline) = WaitStdin \<and>
         stream_live (pipeline_start\<lparr>infer_th := Panicked\<rparr> :: ('a, 's) pipeline) \<and>
         (\<forall>s s'. reach cfg s \<and> infer_th s = Panicked \<and> (pipe_step cfg)\<^sup>*\<^sup>* s s' \<longrightarrow>
            emitted s' = emitted s \<and> delivered s' = delivered s \<and> pc s' \<noteq> Returned)"
proof -
  have "pipe_step cfg pipeline_start (pipeline_start\<lparr>infer_th := Panicked, queue_b := []\<rparr>)"
    by (rule pipe_step.infer_start_panic[OF _ _ fail]) (simp_all add: pipeline_start_def process_alive_def)
  then have r0: "reach cfg (pipeline_start\<lparr>infer_th := Panicked\<rparr>)"
    by (rule reach_step_eq[OF reach.start]) (simp add: pipeline_start_def)
  have run: "emitted s' = emitted s \<and> delivered s' = delivered s \<and> pc s' \<noteq> Returned"
    if r: "reach cfg s" and p: "infer_th s = Panicked" and steps: "(pipe_step cfg)\<^sup>*\<^sup>* s s'" for s s'
  proof -
    from infer_panicked_steps[OF steps p] have s': "infer_th s' = Panicked"
      "emitted s' = emitted s" "delivered s' = delivered s" by simp_all
    have "pc s' \<noteq> Returned"
      using returned_exited[OF reach_inv[OF reach_steps[OF steps r]]] s'(1) by (auto simp: is_exited_def)
    with s' show ?thesis by simp
  qed
  have "\<forall>s s'. reach cfg s \<and> infer_th s = Panicked \<and> (pipe_step cfg)\<^sup>*\<^sup>* s s' \<longrightarrow>
            emitted s' = emitted s \<and> delivered s' = delivered s \<and> pc s' \<noteq> Returned"
    using run by blast
  with r0 show ?thesis by (simp add: pipeline_start_def)
qed

theorem model_failure_keeps_running_witness:
  "inference_thread_init (cfg_opt demo_cfg) True [] False = Inl ModelLoadFailed \<and>
   reach demo_cfg (pipeline_start\<lparr>infer_th := Panicked\<rparr>) \<and>
   stream_live (pipeline_start\<lparr>infer_th := Panicked\<rparr> :: (rat, unit) pipeline)"
proof -
  have f: "inference_thread_init (cfg_opt demo_cfg) True [] False = Inl ModelLoadFailed"
    by (simp add: demo_cfg_def inference_thread_init_def default_opt_def)
  from model_failure_keeps_running[OF f] f show ?thesis by simp
qed



text \<open>C34. After the stop signal no frame is captured any more: once \<open>main\<close> has executed
  \<open>drop(stream)\<close> (line 213), or has panicked, on every run the callback neither sends a
  chunk nor panics.\<close>

theorem no_capture_after_stop:
  assumes r: "reach cfg s" and pc: "pc s \<noteq> WaitStdin" "pc s \<noteq> DropStream"
    and run: "(pipe_step cfg)\<^sup>*\<^sup>* s s'"
  shows "captured s' = captured s \<and> callback_dead s' = callback_dead s"
proof (cases "process_alive s")
  case True
  with stop_flags[OF r pc] have "\<not> stream_live s" by blast
  from stopped_steps[OF run this] show ?thesis by simp
next
  case False
  from dead_process_steps[OF run False] show ?thesis by simp
qed

theorem no_capture_after_stop_witness:
  "reach demo_cfg demo_returned \<and> pc demo_returned = Returned \<and> captured demo_returned = [[2, 4]]"
proof -
  have "pc demo_returned \<noteq> WaitStdin" "pc demo_returned \<noteq> DropStream" by (simp_all add: demo_returned_def)
  from no_capture_after_stop[OF demo_reach_returned this rtranclp.rtrancl_refl] demo_reach_returned
  show ?thesis by (simp add: demo_returned_def)
qed

text \<open>C30. Composition of the trigger with the channels: in every reachable state the
  inference thread has run the kill pipeline exactly once for each window it received
  whose transcript contains the code phrase, and for no other window; each run is counted
  either as a success or as the \<open>Shell Command error\<close> line on standard error
  (lines 140--155).\<close>

theorem kills_exactly_on_phrase:
  assumes r: "reach cfg s" and st: "infer_th s = Running st \<or> infer_th s = Exited st"
  shows "disp_kills st + length (disp_stderr st) =
           length (filter (window_triggers (cfg_model cfg) (code_phrase (cfg_opt cfg))) (delivered s))"
  using reach_trigger[OF r] st by (auto simp: trigger_ok_def)

theorem kills_exactly_on_phrase_witness:
  "reach demo_cfg demo_returned \<and> infer_th demo_returned = Exited demo_disp \<and>
   disp_kills demo_disp + length (disp_stderr demo_disp) =
     length (filter (window_triggers (cfg_model demo_cfg) (code_phrase (cfg_opt demo_cfg)))
       (delivered demo_returned))"
proof -
  have ex: "infer_th demo_returned = Exited demo_disp" by (simp add: demo_returned_def)
  from kills_exactly_on_phrase[OF demo_reach_returned disjI2[OF ex]] demo_reach_returned ex
  show ?thesis by simp
qed

text \<open>C39. Every window on channel B has the resampler's output length: under the
  resampler's contract, in every reachable state each window queued on B or already
  received by the inference thread has exactly \<open>rs_frames_out\<close> samples, even after a
  thread has panicked.\<close>

theorem channel_b_window_shape:
  assumes r: "reach cfg s"
    and rs: "cfg_resampler cfg = Some rs" "resampler_wf rs" "rs_channels rs = 1" "rs_frames_in rs = cfg_W cfg"
    and nowrap: "\<forall>c \<in> set (captured s). cfg_W cfg + length c < 2 ^ 64"
  shows "\<forall>w \<in> set (queue_b s) \<union> set (delivered s). length w = rs_frames_out rs"
  using reach_shape[OF r rs] nowrap by (simp add: shape_ok_def)

theorem channel_b_window_shape_witness:
  "reach demo_cfg demo_returned \<and> resampler_wf demo_resampler \<and> 2 + length [2, 4 :: rat] < 2 ^ 64 \<and>
   queue_b demo_returned = [] \<and> delivered demo_returned = [[2]] \<and> length [2 :: rat] = rs_frames_out demo_resampler"
proof -
  have c: "cfg_resampler demo_cfg = Some demo_resampler" "cfg_W demo_cfg = 2"
    by (simp_all add: demo_cfg_def)
  have "\<forall>w \<in> set (queue_b demo_returned) \<union> set (delivered demo_returned). length w = rs_frames_out demo_resampler"
    using channel_b_window_shape[OF demo_reach_returned c(1)] demo_resampler_contract c(2)
    by (simp add: demo_returned_def)
  then show ?thesis using demo_reach_returned demo_resampler_contract by (simp add: demo_returned_def)
qed



end
