(* ===== verification/Spec2Isabelle.thy ===== *)
theory Spec2Isabelle
  imports Config Mixer RingBuffer Resampler Accumulator Dispatcher Devices Pipeline
begin

text \<open>
  \<^bold>\<open>A verification development for VIMKillerRecharged.\<close>
  The program is one Rust file, \<open>src/src/main.rs\<close>. It listens to an audio input device,
  mixes every captured frame to mono, collects the mono samples in windows of eight
  seconds, resamples each window for the Whisper speech model, transcribes it, optionally
  logs every segment, and runs \<open>kill -9\<close> on every \<open>vi\<close> process when the transcript contains
  the code phrase. Four execution contexts run concurrently: the audio driver's capture
  callback (\<open>buffer_stereo_data\<close>, lines 222--228), the data thread (lines 159--188), the
  inference thread (lines 75--157) and \<open>main\<close>, which blocks on standard input and then
  shuts the pipeline down (lines 207--219). They talk only through two \<open>mpsc\<close> channels:
  A carries mono chunks from the callback to the data thread, B carries resampled windows
  from the data thread to the inference thread.

  \<^bold>\<open>Theories and the code they model.\<close>
  \<^item> \<open>Prelude\<close>: the \<open>model_evals\<close> collection (equations that evaluate the model on closed
    inputs, such as the comparison of \<open>64 word\<close> values), \<open>usize\<close> as \<open>64 word\<close>, chunks as
    lists, \<open>lastn\<close> (the newest \<open>n\<close> elements of a list) and its lemmas, and the
    no-overflow lemmas on \<open>usize\<close> additions.
  \<^item> \<open>Config\<close>: the constants \<open>SECONDS\<close>, \<open>BUFFER_SIZE\<close>, \<open>WHISPER_BUFFER_SIZE\<close> (lines
    15--17), the window lengths built from them (lines 163 and 167--173) and the
    command-line options \<open>Opt\<close> with their defaults (lines 19--37) as the record \<open>opt\<close>.
  \<^item> \<open>Mixer\<close>: the capture callback \<open>buffer_stereo_data\<close>, and
    \<open>whisper_rs::convert_stereo_to_mono_audio\<close> (a library routine, modelled from its
    contract) as \<open>mix_pairs\<close>. The spec's channel mixer for \<open>C\<close> channels is \<open>spec_mix\<close>.
  \<^item> \<open>RingBuffer\<close>: \<open>ringbuffer::AllocRingBuffer\<close> (a library) in two forms: the list model
    \<open>'a ring\<close> that the data thread's definitions use, and the crate's slot array with
    read and write pointers (\<open>alloc_ring\<close>), proved to refine the list model.
  \<^item> \<open>Resampler\<close>: \<open>rubato::FftFixedInOut\<close> (a library, modelled from its contract) as
    the record \<open>resampler\<close>. \<open>fft_fixed_in_out_new\<close> is the constructor with its rounding
    of the chunk to whole FFT blocks of \<open>rate_in div gcd rate_in rate_out\<close> frames,
    \<open>resampler_process\<close> the argument checks of \<open>process\<close>; the FFT kernel and its state
    (the overlap kept between calls) are a parameter constrained by \<open>resampler_wf\<close>.
  \<^item> \<open>Accumulator\<close>: the data thread. \<open>data_thread_init\<close> is lines 163--173,
    \<open>accumulate\<close> lines 176--183 (count, push, threshold, reset, snapshot),
    \<open>data_thread_recv\<close> one iteration of the loop (lines 175--187, with
    \<open>resampler.process\<close> and the send), \<open>data_thread_run\<close> the loop over the chunks
    received. \<open>windows_spec\<close> is the spec's window policy (section 4.2), written
    independently of the code.
  \<^item> \<open>Dispatcher\<close>: the inference thread. \<open>inference_thread_init\<close> opens the log and loads
    the model (lines 78--92), \<open>segment_loop\<close> is lines 113--138, \<open>run_kill_pipeline\<close>
    lines 144--155, \<open>process_window\<close> one iteration of the receive loop, and
    \<open>code_phrase_matches\<close> lines 140--143. The model is a function from a window to
    \<open>whisper_outcome\<close> (segments or the failing call), the wall clock a function of the
    number of lines logged, the shell pipeline a flag saying whether \<open>pipe\<close> succeeded.
  \<^item> \<open>Devices\<close>: start-up of \<open>main\<close>: list-devices mode (lines 43--56), choice of the
    device by name (lines 59--65) and the checks before the stream plays (lines 67--73,
    190--205). The audio host is a record of what \<open>cpal\<close> would report.
  \<^item> \<open>Pipeline\<close>: the concurrent program from \<open>stream.play()\<close> to the return of \<open>main\<close>,
    as the inductive step relation \<open>pipe_step\<close> over a state holding main's program
    counter, the channel endpoints main still owns, both queues and both threads'
    status. Each rule is one atomic action of one context (a capture, one iteration or
    the exit of a thread loop, a line of main's shutdown, a join), so every interleaving
    of the contexts is a run. Send fails exactly when the receiver is gone; receive
    returns queued items first and fails once the queue is empty and all its senders are
    gone. The thread iterations are the definitions of \<open>Accumulator\<close> and
    \<open>Dispatcher\<close>, so the step relation composes the components as the code does.
  \<^item> This theory: properties that span components.

  \<^bold>\<open>What is proved.\<close>
  The data thread refines the spec's window policy (C1) and keeps its invariant (C2--C3):
  the ring holds the newest \<open>W\<close> samples, the counter stays below \<open>W\<close>. Window counts are
  characterised (C4--C5). With a resampler of any other shape than one channel of
  \<open>W\<close> frames, the data thread panics at its first window (C15). C6 proves, for every
  \<open>W \<ge> 2\<close>, that the code's reset to 0 emits fewer windows than there are crossings of
  multiples of \<open>W\<close>. The mixer averages pairs (C7), panics exactly on an odd frame or a
  dead receiver (C8), keeps samples in range (C9), and halves a mono device's frames,
  where the spec's mixer is the identity (C11). The crate's
  ring buffer refines the list model and keeps the newest samples (C12--C13). The inference
  thread triggers on a case-insensitive substring match (C14, C16), logs one line per
  segment (C17), fails exactly on the fatal errors (C18) and survives a failed shell
  pipeline (C19); its log lines parse back into their fields (C38).

  For the concurrent program (C10, C20--C30, C34, C39, C40), every reachable state satisfies
  a four-part invariant: the order of main's drops and joins, the emptiness of dead
  queues, the queue histories, and the data thread's state as a run of its loop. From it
  follow the end-to-end refinement at the normal return (C20), FIFO delivery (C21),
  draining before each thread exits (C22), the complete log at the normal return (C23:
  the spec's line for every segment of every window, composed from the data thread, the
  channels and the inference thread), freedom from deadlock (C24), termination
  after the stop signal (C25--C26), and the effects of a panic (C27--C28). A model that
  fails to load leaves the process running with the stream playing, and from then on no
  window is sent or received and \<open>main\<close> cannot return normally (C29). No chunk is
  captured once the data thread has ended (C10) or once \<open>main\<close> has dropped the stream
  (C34). Further invariants, proved by rule induction on \<open>reach\<close>, give the shape of
  every window on channel B (C39), bound the kill count by the number of windows
  received (C40), make the kill pipeline run exactly once per received window whose
  transcript contains the phrase (C30, \<open>trigger_ok\<close>), and relate the log to the spec's
  \<open>log_spec\<close> of the windows received (\<open>log_ok\<close>, giving C23).

  Start-up is characterised in C31--C33. The resampler's constructor rounds the chunk
  up to whole FFT blocks and keeps the exact ratio of the rates; asked, as the data
  thread asks, for a chunk of \<open>rate_in\<close> frames it takes exactly \<open>rate_in\<close> and returns
  exactly \<open>rate_out\<close> frames for every pair of rates (C35), so the program's own resampler
  meets the shape the theorems assume. This theory shows that with that resampler and any
  kernel meeting its contract, in every reachable state the data thread panics only
  after the inference thread, every window on channel B has 129288 samples, and at the
  normal return the model has received the resampled spec windows of all captured audio
  (C36). C37 checks the spec's three-frame scenario.

  \<^bold>\<open>Bounds and parameters.\<close>
  \<open>sample_count\<close> is a \<open>usize\<close> (\<open>64 word\<close>) and its additions wrap. The theorems assume
  \<open>W + length c < 2^64\<close> for every chunk \<open>c\<close>, which makes each addition exact. This holds
  for any chunk that fits in memory, because the counter stays below \<open>W\<close>. The window
  length \<open>W\<close> is a parameter: the code's value is \<open>window_len = 352800\<close>, and the
  witnesses use windows of 2 to 4 samples so that they evaluate; the witness of C36 runs
  the program's own configuration (\<open>W = 352800\<close>) on a run without audio. No loop needs
  fuel.
  Every thread loop is structural recursion over the list of items received. The
  unbounded loops (the callback firing, blocking receives) are the runs of
  \<open>pipe_step\<close>. Such a run is infinite only while the stream lives (C25).

  \<^bold>\<open>Not modelled.\<close>
  \<^item> Samples are elements of a field, so \<open>f32\<close> rounding is not modelled.
  \<^item> Parts with only a contract: the internals of the FFT resampler, the speech model, the
    audio driver and the shell pipeline; \<open>clap\<close> parsing (the \<open>opt\<close> record holds the parsed
    values).
  \<^item> Printing: the \<open>Debug\<close> prints of the device configuration, and stderr output other
    than the shell-error line.
  \<^item> Errors: I/O errors of the log file other than a failed write. The log file is
    writable when the inference thread opens it and nothing in the model revokes that,
    so the failed write of line 134 (\<open>LogWriteFailed\<close>) is reachable in
    \<open>Dispatcher.process_window\<close> but not in runs of \<open>pipe_step\<close>.
  \<^item> The resampler's \<open>process\<close> rejects every input whose frame count differs from the
    expected one, as spec section 4.3 says; recent \<open>rubato\<close> releases reject only input
    that is too short. This matters only for a misshaped resampler (C15), never for the
    program's own, whose input length equals the window.
  \<^item> Speech model failures that never return: the model is a total function, so a stuck
    inference call, which the spec says stalls shutdown, is not a behaviour of the model.
  \<^item> Time: wall-clock time and latency. Memory is not modelled either, so the unbounded
    queue growth the spec mentions is not bounded here.
  \<^item> Startup timing: the unsupported-format and stream-construction errors are start-up
    outcomes (\<open>Devices.main_startup\<close>); the threads that are already running when main
    returns them are not modelled.
\<close>

text \<open>The program's resampler: \<open>FftFixedInOut::new(BUFFER_SIZE * SECONDS, WHISPER_BUFFER_SIZE *
  SECONDS, BUFFER_SIZE * SECONDS, 1)\<close> with an FFT kernel \<open>fft\<close>.\<close>

definition program_resampler ::
  "('s \<Rightarrow> 'a list list \<Rightarrow> 's \<times> 'a list list) \<Rightarrow> 's \<Rightarrow> ('a, 's) resampler option" where
  "program_resampler fft s0 = fft_fixed_in_out_new window_len whisper_window_len window_len 1 fft s0"

text \<open>The configuration \<open>main\<close> runs the pipeline with: windows of \<open>window_len\<close> samples
  (line 163), the program's resampler, the parsed options, the loaded model and the clock.\<close>

definition program_cfg ::
  "opt \<Rightarrow> ('s \<Rightarrow> 'a list list \<Rightarrow> 's \<times> 'a list list) \<Rightarrow> 's \<Rightarrow> ('a list \<Rightarrow> whisper_outcome) \<Rightarrow>
   (nat \<Rightarrow> string) \<Rightarrow> ('a, 's) pipe_cfg" where
  "program_cfg o' fft s0 model clock =
     \<lparr>cfg_W = window_len, cfg_opt = o', cfg_resampler = program_resampler fft s0,
      cfg_model = model, cfg_clock = clock\<rparr>"

subsection \<open>Properties across components\<close>

lemma program_resampler_eq:
  "program_resampler fft s0 =
     Some \<lparr>rs_channels = 1, rs_frames_in = window_len, rs_frames_out = whisper_window_len,
           rs_state = s0, rs_kernel = fft\<rparr>"
  by (simp add: program_resampler_def fft_fixed_in_out_new_def model_evals gcd_nat.simps)

text \<open>The resampler the data thread builds has one channel, takes windows of exactly
  \<open>window_len = 352800\<close> frames (the ring's capacity, so it accepts every window the data
  thread emits) and produces \<open>whisper_window_len = 129288\<close> frames. That is 16161 samples
  per second, not the 16000 of the spec's \<open>model_rate \<times> window_seconds = 128000\<close>.\<close>

theorem program_resampler_shape:
  "program_resampler fft s0 =
     Some \<lparr>rs_channels = 1, rs_frames_in = window_len, rs_frames_out = whisper_window_len,
           rs_state = s0, rs_kernel = fft\<rparr> \<and>
   window_len = 352800 \<and> whisper_window_len = 129288 \<and> whisper_window_len \<noteq> 16000 * SECONDS"
  by (simp add: program_resampler_eq model_evals SECONDS_def)

text \<open>C36. The program's own configuration meets the contracts the pipeline theorems
  assume. Take the resampler exactly as the data thread builds it
  (\<open>FftFixedInOut::new(BUFFER_SIZE * SECONDS, WHISPER_BUFFER_SIZE * SECONDS,
  BUFFER_SIZE * SECONDS, 1)\<close>, lines 167--173) and any FFT kernel honouring the contract of
  the resampler so built. Then in every reachable state the data thread has panicked only
  if the inference thread panicked first, and every window queued on channel B or received
  has exactly 129288 samples. When \<open>main\<close> returns normally, the model has received, in
  order, the resampled spec windows of all captured audio.\<close>

theorem program_windows_reach_model:
  assumes rs: "program_resampler fft s0 = Some rs" "resampler_wf rs"
    and cfg: "cfg_W cfg = window_len" "cfg_resampler cfg = program_resampler fft s0"
    and r: "reach cfg s"
    and nowrap: "\<forall>c \<in> set (captured s). window_len + length c < 2 ^ 64"
  shows "(data_th s = Panicked \<longrightarrow> infer_th s = Panicked) \<and>
         (\<forall>w \<in> set (queue_b s) \<union> set (delivered s). length w = 129288) \<and>
         (pc s = Returned \<longrightarrow>
            delivered s = resample_windows fft s0 (windows_spec window_len 0 [] (captured s)))"
proof -
  have rs_eq: "rs = \<lparr>rs_channels = 1, rs_frames_in = window_len, rs_frames_out = whisper_window_len,
                     rs_state = s0, rs_kernel = fft\<rparr>"
    using rs(1) by (simp add: program_resampler_eq)
  have c: "cfg_resampler cfg = Some rs" "rs_channels rs = 1" "rs_frames_in rs = cfg_W cfg"
    "0 < cfg_W cfg" "\<forall>c \<in> set (captured s). cfg_W cfg + length c < 2 ^ 64"
    using rs(1) cfg nowrap rs_eq by (simp_all add: model_evals)
  have order: "data_th s = Panicked \<longrightarrow> infer_th s = Panicked"
    using reach_panic_order[OF r c(1) rs(2) c(2,3,4)] c(5) by blast
  have "shape_ok (rs_frames_out rs) s" using reach_shape[OF r c(1) rs(2) c(2,3)] c(5) by blast
  then have shape: "\<forall>w \<in> set (queue_b s) \<union> set (delivered s). length w = 129288"
    using rs_eq by (simp add: shape_ok_def model_evals)
  have "pc s = Returned \<Longrightarrow>
          delivered s = resample_windows fft s0 (windows_spec window_len 0 [] (captured s))"
    using returned_delivers_all[OF r _ c(1) rs(2) c(2,3,5)] cfg(1) rs_eq
    by (simp add: expected_windows_def)
  with order shape show ?thesis by blast
qed

theorem program_windows_reach_model_witness:
  "program_resampler (\<lambda>s (wave :: rat list list). (s, map (\<lambda>_. replicate whisper_window_len 0) wave)) () =
     Some \<lparr>rs_channels = 1, rs_frames_in = window_len, rs_frames_out = whisper_window_len, rs_state = (),
       rs_kernel = \<lambda>s (wave :: rat list list). (s, map (\<lambda>_. replicate whisper_window_len 0) wave)\<rparr> \<and>
   resampler_wf \<lparr>rs_channels = 1, rs_frames_in = window_len, rs_frames_out = whisper_window_len, rs_state = (),
     rs_kernel = \<lambda>s (wave :: rat list list). (s, map (\<lambda>_. replicate whisper_window_len 0) wave)\<rparr> \<and>
   reach (program_cfg default_opt (\<lambda>s (wave :: rat list list). (s, map (\<lambda>_. replicate whisper_window_len 0) wave))
            () (\<lambda>_. Segments []) (\<lambda>_. ''''))
     (pipeline_start\<lparr>pc := Returned, stream_live := False, audio_tx_live := False, inference_tx_live := False,
        data_th := Exited \<lparr>buffer = \<lparr>ring_cap = window_len, ring_buf = []\<rparr>, sample_count = 0,
          resampler = \<lparr>rs_channels = 1, rs_frames_in = window_len, rs_frames_out = whisper_window_len, rs_state = (),
            rs_kernel = \<lambda>s (wave :: rat list list). (s, map (\<lambda>_. replicate whisper_window_len 0) wave)\<rparr>\<rparr>,
        infer_th := Exited demo_disp\<rparr>) \<and>
   delivered (pipeline_start :: (rat, unit) pipeline) =
     resample_windows (\<lambda>s (wave :: rat list list). (s, map (\<lambda>_. replicate whisper_window_len 0) wave)) ()
       (windows_spec window_len 0 [] [])"
proof -
  let ?fft = "\<lambda>s (wave :: rat list list). (s, map (\<lambda>_. replicate whisper_window_len (0 :: rat)) wave)"
  let ?cfg = "program_cfg default_opt ?fft () (\<lambda>_. Segments []) (\<lambda>_. '''')"
  let ?rs = "\<lparr>rs_channels = 1, rs_frames_in = window_len, rs_frames_out = whisper_window_len, rs_state = (),
              rs_kernel = ?fft\<rparr>"
  let ?dt = "\<lparr>buffer = \<lparr>ring_cap = window_len, ring_buf = []\<rparr>, sample_count = 0, resampler = ?rs\<rparr>"
  let ?s = "pipeline_start\<lparr>pc := Returned, stream_live := False, audio_tx_live := False, inference_tx_live := False,
              data_th := Exited ?dt, infer_th := Exited demo_disp\<rparr>"
  have p: "program_resampler ?fft () = Some ?rs" by (rule program_resampler_eq)
  have c: "cfg_W ?cfg = window_len" "cfg_resampler ?cfg = program_resampler ?fft ()"
    by (simp_all add: program_cfg_def)
  have wf: "resampler_wf ?rs" by (simp add: resampler_wf_def)
  have d: "data_thread_init (cfg_W ?cfg) (cfg_resampler ?cfg) = Inr ?dt"
    by (simp add: program_cfg_def program_resampler_eq data_thread_init_def
                  ring_new_def model_evals)
  have i: "inference_thread_init (cfg_opt ?cfg) True [] True = Inr demo_disp"
    by (simp add: program_cfg_def inference_thread_init_def default_opt_def demo_disp_def)
  have r: "reach ?cfg ?s" by (rule quiet_run_reach[OF d i])
  from program_windows_reach_model[OF p wf c r] have
    "delivered ?s = resample_windows ?fft () (windows_spec window_len 0 [] (captured ?s))"
    by (simp add: pipeline_start_def)
  with p wf r show ?thesis by (simp add: pipeline_start_def)
qed

text \<open>C37. The spec's end-to-end scenario (section 8) for the mixer and the data thread:
  three stereo frames of \<open>2k\<close> samples, each mixed to \<open>W/3 = k\<close> mono samples, give no window
  after two frames and exactly one after the third; that window is the three mixed
  chunks, of length \<open>W\<close>, and the one resampled window sent on has the resampler's output
  length.\<close>

theorem three_frames_scenario:
  assumes k: "0 < k" and nowrap: "4 * k < 2 ^ 64"
    and f: "buffer_stereo_data f1 True = Inr c1" "buffer_stereo_data f2 True = Inr c2"
      "buffer_stereo_data f3 True = Inr c3"
    and len: "length f1 = 2 * k" "length f2 = 2 * k" "length f3 = 2 * k"
    and init: "data_thread_init (3 * k) (Some rs) = Inr dt"
    and rs: "resampler_wf rs" "rs_channels rs = 1" "rs_frames_in rs = 3 * k"
  shows "(\<exists>dt'. data_thread_run (3 * k) dt [c1, c2] = Inr (dt', [])) \<and>
         (\<exists>dt'. data_thread_run (3 * k) dt [c1, c2, c3] =
                  Inr (dt', [hd (snd (rs_kernel rs (rs_state rs) [c1 @ c2 @ c3]))])) \<and>
         length (c1 @ c2 @ c3) = 3 * k \<and>
         length (hd (snd (rs_kernel rs (rs_state rs) [c1 @ c2 @ c3]))) = rs_frames_out rs"
proof -
  have c: "length c1 = k" "length c2 = k" "length c3 = k"
    using f len by (auto simp: buffer_stereo_data_Inr)
  have dt: "data_inv (3 * k) dt" "ring_buf (buffer dt) = lastn (3 * k) []" "sample_count dt = 0"
    "resampler dt = rs"
    using data_thread_init_inv[OF init rs] by simp_all
  have nw: "\<forall>c' \<in> set [c1, c2, c3]. 3 * k + length c' < 2 ^ 64" using c nowrap by simp
  have ws2: "windows_spec (3 * k) 0 [] [c1, c2] = []" using c k by simp
  have ws3: "windows_spec (3 * k) 0 [] [c1, c2, c3] = [c1 @ c2 @ c3]"
    using c k by (simp add: lastn_def)
  have run2: "\<exists>dt'. data_thread_run (3 * k) dt [c1, c2] =
      Inr (dt', resample_windows (rs_kernel rs) (rs_state rs) (windows_spec (3 * k) 0 [] [c1, c2]))"
    using data_thread_run_spec[OF dt(1,2), of "[c1, c2]"] nw dt(3,4) by auto
  have run3: "\<exists>dt'. data_thread_run (3 * k) dt [c1, c2, c3] =
      Inr (dt', resample_windows (rs_kernel rs) (rs_state rs) (windows_spec (3 * k) 0 [] [c1, c2, c3]))"
    using data_thread_run_spec[OF dt(1,2) nw] dt(3,4) by auto
  have "\<forall>out \<in> set (resample_windows (rs_kernel rs) (rs_state rs) [c1 @ c2 @ c3]). length out = rs_frames_out rs"
    by (rule resample_windows_lengths[OF rs(1,2)]) (use c rs(3) in simp)
  with run2 run3 ws2 ws3 c show ?thesis by (auto split: prod.splits)
qed

theorem three_frames_scenario_witness:
  "buffer_stereo_data [1, 3 :: rat] True = Inr [2] \<and> buffer_stereo_data [2, 2 :: rat] True = Inr [2] \<and>
   buffer_stereo_data [0, 4 :: rat] True = Inr [2] \<and>
   data_thread_init 3 (Some \<lparr>rs_channels = 1, rs_frames_in = 3, rs_frames_out = 1, rs_state = (),
       rs_kernel = \<lambda>s (wave :: rat list list). (s, map (take 1) wave)\<rparr>) =
     Inr \<lparr>buffer = \<lparr>ring_cap = 3, ring_buf = []\<rparr>, sample_count = 0,
          resampler = \<lparr>rs_channels = 1, rs_frames_in = 3, rs_frames_out = 1, rs_state = (),
                       rs_kernel = \<lambda>s (wave :: rat list list). (s, map (take 1) wave)\<rparr>\<rparr> \<and>
   resampler_wf \<lparr>rs_channels = 1, rs_frames_in = 3, rs_frames_out = 1, rs_state = (),
       rs_kernel = \<lambda>s (wave :: rat list list). (s, map (take 1) wave)\<rparr> \<and>
   (\<exists>dt'. data_thread_run 3 \<lparr>buffer = \<lparr>ring_cap = 3, ring_buf = []\<rparr>, sample_count = 0,
          resampler = \<lparr>rs_channels = 1, rs_frames_in = 3, rs_frames_out = 1, rs_state = (),
                       rs_kernel = \<lambda>s (wave :: rat list list). (s, map (take 1) wave)\<rparr>\<rparr>
        [[2], [2], [2]] = Inr (dt', [[2]]))"
proof -
  let ?rs = "\<lparr>rs_channels = 1, rs_frames_in = 3, rs_frames_out = 1, rs_state = (),
       rs_kernel = \<lambda>s (wave :: rat list list). (s, map (take 1) wave)\<rparr>"
  let ?dt = "\<lparr>buffer = \<lparr>ring_cap = 3, ring_buf = []\<rparr>, sample_count = 0, resampler = ?rs\<rparr>"
  have f: "buffer_stereo_data [1, 3 :: rat] True = Inr [2]" "buffer_stereo_data [2, 2 :: rat] True = Inr [2]"
    "buffer_stereo_data [0, 4 :: rat] True = Inr [2]"
    by (simp_all add: buffer_stereo_data_def convert_stereo_to_mono_audio_def)
  have init: "data_thread_init (3 * 1) (Some ?rs) = Inr ?dt"
    by (simp add: data_thread_init_def ring_new_def)
  have wf: "resampler_wf ?rs" by (simp add: resampler_wf_def)
  from three_frames_scenario[of 1, OF _ _ f _ _ _ init wf] f init wf show ?thesis by simp
qed

end

